theory Spec2Isabelle
  imports Complex_Main
begin

section \<open>The root scanner of \<open>examples/find_roots.c\<close>\<close>

text \<open>
  The program generates \<open>NCHUNKS\<close> chunks of \<open>CHUNKSIZE\<close> doubles, stores them in a
  compressed super-chunk, computes a cubic polynomial chunk by chunk into a second
  super-chunk, and finally scans the polynomial's values for sign changes.

  The two macros are parameters of the model (\<open>nchunks\<close>, \<open>csize\<close>); the program's own
  values are the constants \<open>NCHUNKS\<close> and \<open>CHUNKSIZE\<close> below.  Loop counters are natural
  numbers: they run from 0 to the bound of their loop.
\<close>

subsection \<open>Doubles\<close>

text \<open>
  A C \<open>double\<close>: a finite value (carried as the real number it denotes), one of the two
  infinities, or a NaN.  The sign of a zero is not represented: the program only ever
  compares values with zero, and \<open>-0.0\<close> compares equal to \<open>0.0\<close>.
\<close>

datatype double = Finite real | PlusInf | MinusInf | NaN

text \<open>The C comparisons \<open>d > 0\<close> and \<open>d < 0\<close>; both are false on a NaN.\<close>

fun gt_zero :: "double \<Rightarrow> bool" where
  "gt_zero (Finite r) = (0 < r)"
| "gt_zero PlusInf = True"
| "gt_zero MinusInf = False"
| "gt_zero NaN = False"

fun lt_zero :: "double \<Rightarrow> bool" where
  "lt_zero (Finite r) = (r < 0)"
| "lt_zero PlusInf = False"
| "lt_zero MinusInf = True"
| "lt_zero NaN = False"

text \<open>A C comparison used as an \<open>int\<close>: 1 when it holds, 0 otherwise.\<close>

definition c_bool :: "bool \<Rightarrow> int" where
  "c_bool b = (if b then 1 else 0)"

text \<open>The expression \<open>(v > 0) - (v < 0)\<close> of \<open>find_root\<close>.\<close>

definition sign3 :: "double \<Rightarrow> int" where
  "sign3 v = c_bool (gt_zero v) - c_bool (lt_zero v)"

subsection \<open>Rounding to binary64\<close>

text \<open>
  Arithmetic on doubles is the exact operation on the reals followed by rounding to the
  nearest binary64 value, ties to the even significand (the default IEEE 754 mode, with
  every operation evaluated in double precision).

  \<open>floor_log2 r\<close> is the binary exponent of a positive real, found by halving and doubling.
\<close>

function floor_log2 :: "real \<Rightarrow> int" where
  "floor_log2 r = (if 2 \<le> r then floor_log2 (r / 2) + 1
                   else if 0 < r \<and> r < 1 then floor_log2 (2 * r) - 1
                   else 0)"
  by pat_completeness auto
termination
proof (relation "measure (\<lambda>r. nat \<bar>\<lfloor>log 2 r\<rfloor>\<bar>)")
  show "wf (measure (\<lambda>r. nat \<bar>\<lfloor>log 2 r\<rfloor>\<bar>))" by simp
next
  fix r :: real assume r: "2 \<le> r"
  then have "log 2 2 \<le> log 2 r" by (subst log_le_cancel_iff) auto
  then have "1 \<le> \<lfloor>log 2 r\<rfloor>" by (simp add: le_floor_iff)
  moreover have "\<lfloor>log 2 (r / 2)\<rfloor> = \<lfloor>log 2 r\<rfloor> - 1" using r by (simp add: log_divide)
  ultimately show "(r / 2, r) \<in> measure (\<lambda>r. nat \<bar>\<lfloor>log 2 r\<rfloor>\<bar>)" by simp
next
  fix r :: real assume r: "0 < r \<and> r < 1"
  then have "log 2 r < 0" by simp
  then have "\<lfloor>log 2 r\<rfloor> \<le> - 1" by linarith
  moreover have "\<lfloor>log 2 (2 * r)\<rfloor> = \<lfloor>log 2 r\<rfloor> + 1" using r by (simp add: log_mult add.commute)
  ultimately show "(2 * r, r) \<in> measure (\<lambda>r. nat \<bar>\<lfloor>log 2 r\<rfloor>\<bar>)" by simp
qed

declare floor_log2.simps [simp del]

definition pow2 :: "int \<Rightarrow> real" where
  "pow2 e = (if 0 \<le> e then 2 ^ nat e else 1 / 2 ^ nat (- e))"

text \<open>
  The exponent of the unit in the last place of the binary64 values around \<open>r\<close>:
  53 significant bits, and the subnormal spacing \<open>2^-1074\<close> below \<open>2^-1022\<close>.
\<close>

definition ulp_exp :: "real \<Rightarrow> int" where
  "ulp_exp r = max (floor_log2 \<bar>r\<bar>) (- 1022) - 52"

text \<open>The nearest integer to \<open>t\<close>, given its floor \<open>f\<close>; a tie goes to the even one.\<close>

definition nearest_even :: "real \<Rightarrow> int \<Rightarrow> int" where
  "nearest_even t f =
     (if t - of_int f < 1 / 2 then f
      else if 1 / 2 < t - of_int f then f + 1
      else if even f then f else f + 1)"

definition round_even :: "real \<Rightarrow> int" where
  "round_even t = nearest_even t \<lfloor>t\<rfloor>"

text \<open>Rounding to a multiple of \<open>2^e\<close>, and to binary64 with an exponent that is not bounded above.\<close>

definition round_to_ulp :: "real \<Rightarrow> int \<Rightarrow> real" where
  "round_to_ulp r e = of_int (round_even (r / pow2 e)) * pow2 e"

definition round_binary64 :: "real \<Rightarrow> real" where
  "round_binary64 r = round_to_ulp r (ulp_exp r)"

text \<open>Overflow: a result that rounds to \<open>2^1024\<close> or beyond is an infinity.\<close>

definition with_overflow :: "real \<Rightarrow> double" where
  "with_overflow v =
     (if 2 ^ 1024 \<le> v then PlusInf else if v \<le> - (2 ^ 1024) then MinusInf else Finite v)"

definition dround :: "real \<Rightarrow> double" where
  "dround r = with_overflow (round_binary64 r)"

text \<open>A floating constant of the source text, such as \<open>1.35\<close>: the nearest double.\<close>

definition literal :: "real \<Rightarrow> double" where
  "literal r = dround r"

text \<open>The sign of an infinite result, from the signs of the operands; no sign gives a NaN.\<close>

definition inf_of_sign :: "int \<Rightarrow> double" where
  "inf_of_sign s = (if 0 < s then PlusInf else if s < 0 then MinusInf else NaN)"

text \<open>
  \<open>a - b\<close>, \<open>a * b\<close> and \<open>a / b\<close> on doubles.  A zero divisor counts as \<open>+0.0\<close>; the program
  divides once, \<open>10.\<close> by the number of samples.
\<close>

fun dsub :: "double \<Rightarrow> double \<Rightarrow> double" where
  "dsub NaN b = NaN"
| "dsub a NaN = NaN"
| "dsub (Finite a) (Finite b) = dround (a - b)"
| "dsub (Finite a) PlusInf = MinusInf"
| "dsub (Finite a) MinusInf = PlusInf"
| "dsub PlusInf PlusInf = NaN"
| "dsub PlusInf b = PlusInf"
| "dsub MinusInf MinusInf = NaN"
| "dsub MinusInf b = MinusInf"

fun dmul :: "double \<Rightarrow> double \<Rightarrow> double" where
  "dmul NaN b = NaN"
| "dmul a NaN = NaN"
| "dmul (Finite a) (Finite b) = dround (a * b)"
| "dmul a b = inf_of_sign (sign3 a * sign3 b)"

fun ddiv :: "double \<Rightarrow> double \<Rightarrow> double" where
  "ddiv NaN b = NaN"
| "ddiv a NaN = NaN"
| "ddiv (Finite a) (Finite b) = (if b = 0 then inf_of_sign (sign3 (Finite a)) else dround (a / b))"
| "ddiv (Finite a) b = Finite 0"
| "ddiv a (Finite b) = inf_of_sign (sign3 a * (if b < 0 then - 1 else 1))"
| "ddiv a b = NaN"

text \<open>
  C \<open>int\<close> arithmetic: 32 bits, two's complement; a result out of range wraps around
  here (the program never leaves the range, see \<open>fill_buffer_index_in_range\<close>).
  Converting an \<open>int\<close> to a double is exact.
\<close>

definition int32 :: "int \<Rightarrow> int" where
  "int32 v = (v + 2 ^ 31) mod 2 ^ 32 - 2 ^ 31"

definition int_to_double :: "int \<Rightarrow> double" where
  "int_to_double v = Finite (of_int v)"

subsection \<open>The macros\<close>

definition NCHUNKS :: nat where
  "NCHUNKS = 500"

definition CHUNKSIZE :: nat where
  "CHUNKSIZE = 200 * 1000"

subsection \<open>\<open>fill_buffer\<close> and \<open>process_data\<close>\<close>

text \<open>\<open>double incx = 10. / (NCHUNKS * CHUNKSIZE)\<close>: an \<open>int\<close> product, converted, then a double division.\<close>

definition incx :: "nat \<Rightarrow> nat \<Rightarrow> double" where
  "incx nchunks csize = ddiv (literal 10) (int_to_double (int32 (int nchunks * int csize)))"

text \<open>The loop of \<open>fill_buffer\<close> from index \<open>i\<close> on: \<open>x[i] = incx * (nchunk * CHUNKSIZE + i)\<close>.\<close>

function fill_buffer_loop :: "nat \<Rightarrow> nat \<Rightarrow> int \<Rightarrow> nat \<Rightarrow> double list \<Rightarrow> double list" where
  "fill_buffer_loop nchunks csize nchunk i x =
     (if i < csize
      then fill_buffer_loop nchunks csize nchunk (Suc i)
             (x[i := dmul (incx nchunks csize)
                          (int_to_double (int32 (int32 (nchunk * int csize) + int i)))])
      else x)"
  by pat_completeness auto
termination
  by (relation "measure (\<lambda>(nchunks, csize, nchunk, i, x). csize - i)") auto

declare fill_buffer_loop.simps [simp del]

definition fill_buffer :: "nat \<Rightarrow> nat \<Rightarrow> double list \<Rightarrow> int \<Rightarrow> double list" where
  "fill_buffer nchunks csize x nchunk = fill_buffer_loop nchunks csize nchunk 0 x"

text \<open>The loop of \<open>process_data\<close>: \<open>y[i] = (xi - 1.35) * (xi - 4.45) * (xi - 8.5)\<close>.\<close>

function process_data_loop :: "nat \<Rightarrow> double list \<Rightarrow> nat \<Rightarrow> double list \<Rightarrow> double list" where
  "process_data_loop csize x i y =
     (if i < csize
      then process_data_loop csize x (Suc i)
             (let xi = x ! i
              in y[i := dmul (dmul (dsub xi (literal (135 / 100))) (dsub xi (literal (445 / 100))))
                             (dsub xi (literal (85 / 10)))])
      else y)"
  by pat_completeness auto
termination
  by (relation "measure (\<lambda>(csize, x, i, y). csize - i)") auto

declare process_data_loop.simps [simp del]

definition process_data :: "nat \<Rightarrow> double list \<Rightarrow> double list \<Rightarrow> double list" where
  "process_data csize x y = process_data_loop csize x 0 y"

subsection \<open>\<open>find_root\<close>\<close>

text \<open>
  The local state of \<open>find_root\<close>: the variables \<open>pv\<close> and \<open>last_root_idx\<close>, and the
  calls of \<open>printf\<close> made so far, each recorded as the loop index at which it happened
  together with the printed value \<open>x[i]\<close>.
\<close>

record scan_state =
  pv :: double
  last_root_idx :: int
  printed :: "(nat \<times> double) list"

text \<open>One iteration of the \<open>for\<close> loop, at index \<open>i\<close>.\<close>

definition find_root_iter :: "double list \<Rightarrow> double list \<Rightarrow> nat \<Rightarrow> scan_state \<Rightarrow> scan_state" where
  "find_root_iter x y i s =
     (let yi = y ! i;
          s' = (if sign3 yi \<noteq> sign3 (pv s)
                then (if last_root_idx s \<noteq> int i - 1
                      then s\<lparr>printed := printed s @ [(i, x ! i)], last_root_idx := int i\<rparr>
                      else s)
                else s)
      in s'\<lparr>pv := yi\<rparr>)"

text \<open>The loop \<open>for (i = 0; i < CHUNKSIZE; i++)\<close> from index \<open>i\<close> on.\<close>

function find_root_loop :: "nat \<Rightarrow> double list \<Rightarrow> double list \<Rightarrow> nat \<Rightarrow> scan_state \<Rightarrow> scan_state" where
  "find_root_loop csize x y i s =
     (if i < csize then find_root_loop csize x y (Suc i) (find_root_iter x y i s) else s)"
  by pat_completeness auto
termination
  by (relation "measure (\<lambda>(csize, x, y, i, s). csize - i)") auto

declare find_root_loop.simps [simp del]

text \<open>\<open>find_root(x, y, prev_value)\<close> on buffers of \<open>csize\<close> elements: the records of its prints.\<close>

definition find_root :: "nat \<Rightarrow> double list \<Rightarrow> double list \<Rightarrow> double \<Rightarrow> (nat \<times> double) list" where
  "find_root csize x y prev_value =
     printed (find_root_loop csize x y 0 \<lparr>pv = prev_value, last_root_idx = - 1, printed = []\<rparr>)"

subsection \<open>The super-chunk library\<close>

text \<open>
  \<open>blosc2_append_buffer\<close> and \<open>blosc2_decompress_chunk\<close> belong to the library, not to the
  example.  They are parameters of the model: a library is any pair of functions
  on a library state \<open>'l\<close>.  Appending hands over a buffer.  Decompressing chunk
  \<open>nchunk\<close> of a super-chunk returns the \<open>int\<close> result \<open>dsize\<close> and the doubles it has written
  to the start of the destination buffer.
\<close>

datatype schunk = SC_X | SC_Y

record 'l blosc2 =
  append_buffer :: "schunk \<Rightarrow> double list \<Rightarrow> 'l \<Rightarrow> 'l"
  decompress_chunk :: "schunk \<Rightarrow> int \<Rightarrow> 'l \<Rightarrow> int \<times> double list \<times> 'l"

text \<open>Writing \<open>data\<close> to the start of a buffer; the buffer keeps its size.\<close>

definition store_into :: "double list \<Rightarrow> double list \<Rightarrow> double list" where
  "store_into data buf = take (length buf) (data @ drop (length data) buf)"

subsection \<open>\<open>compute_vectors\<close>\<close>

text \<open>
  What a run does that can be seen from outside: its calls of the library, and the roots
  it prints.  \<open>Decompressed sc nchunk dsize\<close> is a call of \<open>blosc2_decompress_chunk\<close> on chunk
  \<open>nchunk\<close> of \<open>sc\<close> that returned \<open>dsize\<close>.  (The timing and throughput messages and the
  error messages are left out.)
\<close>

datatype event =
  Appended schunk
| Decompressed schunk int int
| Root double

text \<open>
  The variables of \<open>compute_vectors\<close>: the two static buffers, the state of the library
  with the two super-chunks, and the events so far.
\<close>

record 'l machine =
  buffer_x :: "double list"
  buffer_y :: "double list"
  lib :: 'l
  trace :: "event list"

text \<open>\<open>blosc2_append_buffer(sc, isize, buffer)\<close>, from the buffer that goes with \<open>sc\<close>.\<close>

definition append_from :: "'l blosc2 \<Rightarrow> schunk \<Rightarrow> 'l machine \<Rightarrow> 'l machine" where
  "append_from b sc s =
     s\<lparr>lib := append_buffer b sc (case sc of SC_X \<Rightarrow> buffer_x s | SC_Y \<Rightarrow> buffer_y s) (lib s),
       trace := trace s @ [Appended sc]\<rparr>"

text \<open>\<open>dsize = blosc2_decompress_chunk(sc, nchunk, buffer, isize)\<close>, into the buffer that goes with \<open>sc\<close>.\<close>

definition decompress_into :: "'l blosc2 \<Rightarrow> schunk \<Rightarrow> nat \<Rightarrow> 'l machine \<Rightarrow> int \<times> 'l machine" where
  "decompress_into b sc nchunk s =
     (case decompress_chunk b sc (int nchunk) (lib s) of
        (dsize, data, l') \<Rightarrow>
          (dsize,
           (case sc of
              SC_X \<Rightarrow> s\<lparr>buffer_x := store_into data (buffer_x s)\<rparr>
            | SC_Y \<Rightarrow> s\<lparr>buffer_y := store_into data (buffer_y s)\<rparr>)
           \<lparr>lib := l', trace := trace s @ [Decompressed sc (int nchunk) dsize]\<rparr>))"

text \<open>The first loop: fill \<open>buffer_x\<close> and append it to \<open>sc_x\<close>.\<close>

function generate_loop :: "'l blosc2 \<Rightarrow> nat \<Rightarrow> nat \<Rightarrow> nat \<Rightarrow> 'l machine \<Rightarrow> 'l machine" where
  "generate_loop b nchunks csize nchunk s =
     (if nchunk < nchunks
      then generate_loop b nchunks csize (Suc nchunk)
             (append_from b SC_X (s\<lparr>buffer_x := fill_buffer nchunks csize (buffer_x s) (int nchunk)\<rparr>))
      else s)"
  by pat_completeness auto
termination
  by (relation "measure (\<lambda>(b, nchunks, csize, nchunk, s). nchunks - nchunk)") auto

declare generate_loop.simps [simp del]

text \<open>
  The second loop: decompress chunk \<open>nchunk\<close> of \<open>sc_x\<close>, compute the polynomial into
  \<open>buffer_y\<close>, append it to \<open>sc_y\<close>.  \<open>Some dsize\<close> is the early \<open>return dsize\<close>.
\<close>

function transform_loop :: "'l blosc2 \<Rightarrow> nat \<Rightarrow> nat \<Rightarrow> nat \<Rightarrow> 'l machine \<Rightarrow> int option \<times> 'l machine" where
  "transform_loop b nchunks csize nchunk s =
     (if nchunk < nchunks
      then (case decompress_into b SC_X nchunk s of
              (dsize, s1) \<Rightarrow>
                if dsize < 0 then (Some dsize, s1)
                else transform_loop b nchunks csize (Suc nchunk)
                       (append_from b SC_Y
                          (s1\<lparr>buffer_y := process_data csize (buffer_x s1) (buffer_y s1)\<rparr>)))
      else (None, s))"
  by pat_completeness auto
termination
  by (relation "measure (\<lambda>(b, nchunks, csize, nchunk, s). nchunks - nchunk)") auto

declare transform_loop.simps [simp del]

text \<open>
  The third loop: decompress chunk \<open>nchunk\<close> of \<open>sc_y\<close> and of \<open>sc_x\<close>, call \<open>find_root\<close>
  with the carried \<open>prev_value\<close>, then carry \<open>buffer_y[CHUNKSIZE - 1]\<close>.
\<close>

function scan_loop :: "'l blosc2 \<Rightarrow> nat \<Rightarrow> nat \<Rightarrow> nat \<Rightarrow> double \<Rightarrow> 'l machine \<Rightarrow> int option \<times> 'l machine" where
  "scan_loop b nchunks csize nchunk prev_value s =
     (if nchunk < nchunks
      then (case decompress_into b SC_Y nchunk s of
              (dsize, s1) \<Rightarrow>
                if dsize < 0 then (Some dsize, s1)
                else (case decompress_into b SC_X nchunk s1 of
                        (dsize', s2) \<Rightarrow>
                          if dsize' < 0 then (Some dsize', s2)
                          else scan_loop b nchunks csize (Suc nchunk) (buffer_y s2 ! (csize - 1))
                                 (s2\<lparr>trace := trace s2 @
                                       map (\<lambda>r. Root (snd r))
                                         (find_root csize (buffer_x s2) (buffer_y s2) prev_value)\<rparr>)))
      else (None, s))"
  by pat_completeness auto
termination
  by (relation "measure (\<lambda>(b, nchunks, csize, nchunk, prev_value, s). nchunks - nchunk)") auto

declare scan_loop.simps [simp del]

text \<open>The state at the start: the static buffers are zero, nothing has happened.\<close>

definition initial :: "nat \<Rightarrow> 'l \<Rightarrow> 'l machine" where
  "initial csize l0 =
     \<lparr>buffer_x = replicate csize (Finite 0), buffer_y = replicate csize (Finite 0),
      lib = l0, trace = []\<rparr>"

text \<open>The state after the first loop, and the outcome of the second.\<close>

definition generate_phase :: "'l blosc2 \<Rightarrow> nat \<Rightarrow> nat \<Rightarrow> 'l \<Rightarrow> 'l machine" where
  "generate_phase b nchunks csize l0 = generate_loop b nchunks csize 0 (initial csize l0)"

definition transform_phase :: "'l blosc2 \<Rightarrow> nat \<Rightarrow> nat \<Rightarrow> 'l \<Rightarrow> int option \<times> 'l machine" where
  "transform_phase b nchunks csize l0 =
     transform_loop b nchunks csize 0 (generate_phase b nchunks csize l0)"

text \<open>
  \<open>compute_vectors\<close>, from the library state \<open>l0\<close> in which the two super-chunks have been
  created: its return value and its final state.  Between the second and the third
  loop stands \<open>prev_value = buffer_y[0]\<close>.
\<close>

definition compute_vectors :: "'l blosc2 \<Rightarrow> nat \<Rightarrow> nat \<Rightarrow> 'l \<Rightarrow> int \<times> 'l machine" where
  "compute_vectors b nchunks csize l0 =
     (case transform_phase b nchunks csize l0 of
        (Some dsize, s) \<Rightarrow> (dsize, s)
      | (None, s) \<Rightarrow>
          (case scan_loop b nchunks csize 0 (buffer_y s ! 0) s of
             (Some dsize, s') \<Rightarrow> (dsize, s')
           | (None, s') \<Rightarrow> (0, s')))"

text \<open>The roots a run has printed, in order.\<close>

fun roots_of :: "event list \<Rightarrow> double list" where
  "roots_of [] = []"
| "roots_of (Root r # es) = r # roots_of es"
| "roots_of (e # es) = roots_of es"

subsection \<open>A plain store\<close>

text \<open>
  Modelled from the spec: the chunked container of the specification with a lossless
  codec and the identity filter (the library's code is not part of the example).  A
  super-chunk is the list of the buffers appended to it; decompressing a chunk gives its
  buffer back and returns its size in bytes, and an index out of range returns a negative
  value.
\<close>

record store =
  chunks_x :: "double list list"
  chunks_y :: "double list list"

definition chunks_of :: "schunk \<Rightarrow> store \<Rightarrow> double list list" where
  "chunks_of sc l = (case sc of SC_X \<Rightarrow> chunks_x l | SC_Y \<Rightarrow> chunks_y l)"

definition empty_store :: store where
  "empty_store = \<lparr>chunks_x = [], chunks_y = []\<rparr>"

definition plain_store :: "store blosc2" where
  "plain_store =
     \<lparr>append_buffer = (\<lambda>sc buf l.
         case sc of
           SC_X \<Rightarrow> l\<lparr>chunks_x := chunks_x l @ [buf]\<rparr>
         | SC_Y \<Rightarrow> l\<lparr>chunks_y := chunks_y l @ [buf]\<rparr>),
      decompress_chunk = (\<lambda>sc n l.
         if 0 \<le> n \<and> nat n < length (chunks_of sc l)
         then (8 * int (length (chunks_of sc l ! nat n)), chunks_of sc l ! nat n, l)
         else (- 1, [], l))\<rparr>"

text \<open>
  Modelled from the spec: the same container with a chunk that cannot be decoded;
  decompressing chunk \<open>bad\<close> of super-chunk \<open>sc_bad\<close> fails with \<open>code\<close>.
\<close>

definition faulty_store :: "schunk \<Rightarrow> int \<Rightarrow> int \<Rightarrow> store blosc2" where
  "faulty_store sc_bad bad code =
     plain_store\<lparr>decompress_chunk := (\<lambda>sc n l.
        if sc = sc_bad \<and> n = bad then (code, [], l) else decompress_chunk plain_store sc n l)\<rparr>"

text \<open>
  A store that holds the samples \<open>x = 0, 1, 2, 3\<close> and \<open>y = -1, -1, 1, 1\<close> in two chunks of
  two: the only sign change of \<open>y\<close> lies between the chunks.
\<close>

definition boundary_store :: store where
  "boundary_store =
     \<lparr>chunks_x = [[Finite 0, Finite 1], [Finite 2, Finite 3]],
      chunks_y = [[Finite (- 1), Finite (- 1)], [Finite 1, Finite 1]]\<rparr>"

subsection \<open>Notions used in the statements\<close>

text \<open>The loop indices at which a call of \<open>find_root\<close> has printed.\<close>

definition indices :: "(nat \<times> double) list \<Rightarrow> nat set" where
  "indices ps = fst ` set ps"

text \<open>The C comparisons \<open>d == 0\<close> and \<open>a < b\<close> of doubles.\<close>

fun eq_zero :: "double \<Rightarrow> bool" where
  "eq_zero (Finite r) = (r = 0)"
| "eq_zero PlusInf = False"
| "eq_zero MinusInf = False"
| "eq_zero NaN = False"


fun dless :: "double \<Rightarrow> double \<Rightarrow> bool" where
  "dless NaN b = False"
| "dless a NaN = False"
| "dless (Finite a) (Finite b) = (a < b)"
| "dless (Finite a) PlusInf = True"
| "dless MinusInf PlusInf = True"
| "dless MinusInf (Finite b) = True"
| "dless a b = False"

text \<open>A decompression that reported an error, and a trace without one.\<close>

definition failed :: "event \<Rightarrow> bool" where
  "failed e = (case e of Decompressed sc n dsize \<Rightarrow> dsize < 0 | _ \<Rightarrow> False)"

definition clean :: "event list \<Rightarrow> bool" where
  "clean t = list_all (\<lambda>e. \<not> failed e) t"

text \<open>
  The shape of a trace with the outcome of a loop: without a return the trace is clean;
  with \<open>return dsize\<close> the value is negative, it is the result of the last event, a
  decompression, and the trace before it is clean.
\<close>

definition run_ok :: "int option \<Rightarrow> event list \<Rightarrow> bool" where
  "run_ok r t =
     (case r of
        None \<Rightarrow> clean t
      | Some d \<Rightarrow> d < 0 \<and> (\<exists>sc n. t \<noteq> [] \<and> last t = Decompressed sc n d) \<and> clean (butlast t))"

section \<open>The sign classes\<close>

lemma sign3_cases: "sign3 v = - 1 \<or> sign3 v = 0 \<or> sign3 v = 1"
  by (cases v) (auto simp: sign3_def c_bool_def)

lemma sign3_NaN: "sign3 NaN = 0"
  by (simp add: sign3_def c_bool_def)

text \<open>
  Claim C4.  The sign expression of the scanner takes one of the three values \<open>-1\<close>,
  \<open>0\<close>, \<open>1\<close>: \<open>1\<close> on the positive values, \<open>-1\<close> on the negative ones and \<open>0\<close> on a
  value equal to zero.  So a zero next to a sample that is positive or negative always
  passes the test \<open>sign(y[i]) != sign(pv)\<close>, whichever of the two comes first.
  (A NaN is neither positive nor negative nor zero; its class is \<open>0\<close>, see \<open>sign3_NaN\<close>.)
\<close>

theorem sign3_three_classes:
  "(sign3 v = - 1 \<or> sign3 v = 0 \<or> sign3 v = 1) \<and>
   (gt_zero v \<longrightarrow> sign3 v = 1) \<and>
   (lt_zero v \<longrightarrow> sign3 v = - 1) \<and>
   (eq_zero v \<longrightarrow> sign3 v = 0) \<and>
   (eq_zero z \<and> (gt_zero v \<or> lt_zero v) \<longrightarrow> sign3 z \<noteq> sign3 v \<and> sign3 v \<noteq> sign3 z)"
proof -
  have pos: "sign3 v = 1" if "gt_zero v" using that by (cases v) (auto simp: sign3_def c_bool_def)
  have neg: "sign3 v = - 1" if "lt_zero v" using that by (cases v) (auto simp: sign3_def c_bool_def)
  have zero: "sign3 w = 0" if "eq_zero w" for w
    using that by (cases w) (auto simp: sign3_def c_bool_def)
  show ?thesis using sign3_cases[of v] pos neg zero[of v] zero[of z] by auto
qed

theorem sign3_three_classes_witness:
  "eq_zero (Finite 0) \<and> lt_zero (Finite (- 3)) \<and> sign3 (Finite (- 3)) = - 1 \<and>
   sign3 (Finite 0) \<noteq> sign3 (Finite (- 3)) \<and> sign3 (Finite (- 3)) \<noteq> sign3 (Finite 0)"
  using sign3_three_classes[of "Finite (- 3)" "Finite 0"] by simp

section \<open>One call of \<open>find_root\<close>\<close>

lemma find_root_iter_pv: "pv (find_root_iter x y i s) = y ! i"
  by (simp add: find_root_iter_def Let_def)

lemma find_root_iter_printed:
  "printed (find_root_iter x y i s) =
     (if sign3 (y ! i) \<noteq> sign3 (pv s) \<and> last_root_idx s \<noteq> int i - 1
      then printed s @ [(i, x ! i)] else printed s)"
  by (simp add: find_root_iter_def Let_def)

lemma find_root_iter_last:
  "last_root_idx (find_root_iter x y i s) =
     (if sign3 (y ! i) \<noteq> sign3 (pv s) \<and> last_root_idx s \<noteq> int i - 1
      then int i else last_root_idx s)"
  by (simp add: find_root_iter_def Let_def)

text \<open>
  The loop from index \<open>i\<close> on, started in a state whose prints all lie before \<open>i\<close>: the
  earlier prints stay, index \<open>i\<close> prints by the test of the loop body on the state, and a
  later index \<open>j\<close> prints exactly when the sign of \<open>y[j]\<close> differs from that of \<open>y[j - 1]\<close>
  and index \<open>j - 1\<close> has not printed.
\<close>

lemma find_root_loop_indices:
  assumes "\<forall>j \<in> indices (printed s). j < i" and "last_root_idx s < int i"
  shows "\<forall>j. j \<in> indices (printed (find_root_loop csize x y i s)) \<longleftrightarrow>
           (if j < i then j \<in> indices (printed s)
            else if j = i then i < csize \<and> sign3 (y ! i) \<noteq> sign3 (pv s) \<and> last_root_idx s \<noteq> int i - 1
            else j < csize \<and> sign3 (y ! j) \<noteq> sign3 (y ! (j - 1)) \<and>
                 j - 1 \<notin> indices (printed (find_root_loop csize x y i s)))"
  using assms
proof (induction csize x y i s rule: find_root_loop.induct)
  case (1 csize x y i s)
  show ?case
  proof (cases "i < csize")
    case False
    then have eq: "find_root_loop csize x y i s = s" by (simp add: find_root_loop.simps)
    show ?thesis using False "1.prems" by (auto simp: eq)
  next
    case True
    let ?s' = "find_root_iter x y i s"
    let ?F = "indices (printed (find_root_loop csize x y i s))"
    have eq: "find_root_loop csize x y i s = find_root_loop csize x y (Suc i) ?s'"
      using True by (subst find_root_loop.simps) simp
    have A: "\<forall>j \<in> indices (printed ?s'). j < Suc i"
      using "1.prems"(1) by (auto simp: find_root_iter_printed indices_def)
    have B: "last_root_idx ?s' < int (Suc i)"
      using "1.prems"(2) by (simp add: find_root_iter_last)
    note IH = "1.IH"[OF True A B, folded eq]
    have fire: "i \<in> indices (printed ?s') \<longleftrightarrow>
                  sign3 (y ! i) \<noteq> sign3 (pv s) \<and> last_root_idx s \<noteq> int i - 1"
      using "1.prems"(1) by (auto simp: find_root_iter_printed indices_def)
    have old: "\<And>j. j < i \<Longrightarrow> j \<in> indices (printed ?s') \<longleftrightarrow> j \<in> indices (printed s)"
      by (auto simp: find_root_iter_printed indices_def)
    have track: "last_root_idx ?s' \<noteq> int (Suc i) - 1 \<longleftrightarrow> i \<notin> indices (printed ?s')"
      using "1.prems" fire by (auto simp: find_root_iter_last)
    have inF: "i \<in> ?F \<longleftrightarrow> i \<in> indices (printed ?s')"
      using IH by simp
    show ?thesis
    proof (intro allI)
      fix j
      consider "j < i" | "j = i" | "j = Suc i" | "Suc i < j" by linarith
      then show "j \<in> ?F \<longleftrightarrow>
           (if j < i then j \<in> indices (printed s)
            else if j = i then i < csize \<and> sign3 (y ! i) \<noteq> sign3 (pv s) \<and> last_root_idx s \<noteq> int i - 1
            else j < csize \<and> sign3 (y ! j) \<noteq> sign3 (y ! (j - 1)) \<and> j - 1 \<notin> ?F)"
      proof cases
        case 1
        then show ?thesis using IH old by simp
      next
        case 2
        then show ?thesis using inF fire True by simp
      next
        case 3
        have "Suc i \<in> ?F \<longleftrightarrow> Suc i < csize \<and> sign3 (y ! Suc i) \<noteq> sign3 (pv ?s') \<and>
                 last_root_idx ?s' \<noteq> int (Suc i) - 1"
          using IH by simp
        then show ?thesis using 3 track inF by (simp add: find_root_iter_pv)
      next
        case 4
        then show ?thesis using IH by simp
      qed
    qed
  qed
qed

text \<open>
  What one call reports: index \<open>j\<close> prints exactly when it is not the first index, the
  sign of \<open>y[j]\<close> differs from that of \<open>y[j - 1]\<close>, and index \<open>j - 1\<close> has not printed.
\<close>

lemma find_root_reports_iff:
  "j \<in> indices (find_root csize x y prev_value) \<longleftrightarrow>
     0 < j \<and> j < csize \<and> sign3 (y ! j) \<noteq> sign3 (y ! (j - 1)) \<and>
     j - 1 \<notin> indices (find_root csize x y prev_value)"
proof -
  let ?s0 = "\<lparr>pv = prev_value, last_root_idx = - 1, printed = []\<rparr>"
  have A: "\<forall>j \<in> indices (printed ?s0). j < 0" by (simp add: indices_def)
  have B: "last_root_idx ?s0 < int 0" by simp
  from find_root_loop_indices[OF A B, of csize x y]
  show ?thesis unfolding find_root_def by (cases "j = 0") (simp_all add: indices_def)
qed

text \<open>What is printed at index \<open>j\<close> is \<open>x[j]\<close>.\<close>

lemma find_root_loop_values:
  assumes "\<forall>(j, v) \<in> set (printed s). v = x ! j"
  shows "\<forall>(j, v) \<in> set (printed (find_root_loop csize x y i s)). v = x ! j"
  using assms
proof (induction csize x y i s rule: find_root_loop.induct)
  case (1 csize x y i s)
  show ?case
  proof (cases "i < csize")
    case False
    then show ?thesis using "1.prems" by (subst find_root_loop.simps) simp
  next
    case True
    have "\<forall>(j, v) \<in> set (printed (find_root_iter x y i s)). v = x ! j"
      using "1.prems" by (auto simp: find_root_iter_printed)
    then show ?thesis using "1.IH"[OF True] True by (subst find_root_loop.simps) simp
  qed
qed

lemma find_root_values: "(j, v) \<in> set (find_root csize x y prev_value) \<Longrightarrow> v = x ! j"
  using find_root_loop_values[of "\<lparr>pv = prev_value, last_root_idx = - 1, printed = []\<rparr>" x csize y 0]
  by (auto simp: find_root_def)

text \<open>
  Claim C8.  A call of \<open>find_root\<close> never reports at index 0, whatever the buffers and
  \<open>prev_value\<close> are: \<open>last_root_idx\<close> starts at \<open>-1\<close>, which is \<open>i - 1\<close> for \<open>i = 0\<close>.
\<close>

theorem find_root_never_reports_first:
  "0 \<notin> indices (find_root csize x y prev_value)"
  using find_root_reports_iff[of 0 csize x y prev_value] by simp

text \<open>
  Claim C9.  Within one call of \<open>find_root\<close> no two consecutive indices both report: a
  report at index \<open>i\<close> excludes one at index \<open>i + 1\<close>.
\<close>

theorem find_root_no_consecutive_reports:
  "i \<in> indices (find_root csize x y prev_value) \<Longrightarrow>
   Suc i \<notin> indices (find_root csize x y prev_value)"
  using find_root_reports_iff[of "Suc i" csize x y prev_value] by simp

lemmas find_root_eval = find_root_def find_root_loop.simps find_root_iter_def sign3_def c_bool_def
  indices_def

theorem find_root_no_consecutive_reports_witness:
  "1 \<in> indices (find_root 4 [Finite 0, Finite 1, Finite 2, Finite 3]
                    [Finite (- 1), Finite 1, Finite (- 1), Finite 1] (Finite (- 1))) \<and>
   Suc 1 \<notin> indices (find_root 4 [Finite 0, Finite 1, Finite 2, Finite 3]
                    [Finite (- 1), Finite 1, Finite (- 1), Finite 1] (Finite (- 1)))"
proof -
  have h: "1 \<in> indices (find_root 4 [Finite 0, Finite 1, Finite 2, Finite 3]
                    [Finite (- 1), Finite 1, Finite (- 1), Finite 1] (Finite (- 1)))"
    by (simp add: find_root_eval Let_def)
  show ?thesis using h find_root_no_consecutive_reports[OF h] by simp
qed

text \<open>
  The example of the specification: one chunk with \<open>x = 0, 1, 2, 3\<close> and
  \<open>y = -1, -1, 1, 1\<close>, seeded with the first sample of \<open>y\<close>, reports once, at \<open>x = 2\<close>.
\<close>

lemma find_root_example:
  "find_root 4 [Finite 0, Finite 1, Finite 2, Finite 3]
     [Finite (- 1), Finite (- 1), Finite 1, Finite 1] (Finite (- 1)) = [(2, Finite 2)]"
  by (simp add: find_root_eval Let_def)

text \<open>
  The value passed as \<open>prev_value\<close> has no effect on what a call reports: it is only
  compared at index 0, where nothing is ever printed.
\<close>

lemma find_root_prev_value_unused:
  "find_root csize x y prev_value = find_root csize x y prev_value'"
proof (cases "0 < csize")
  case False
  then show ?thesis by (simp add: find_root_def find_root_loop.simps)
next
  case True
  have "find_root_iter x y 0 \<lparr>pv = p, last_root_idx = - 1, printed = []\<rparr> =
        \<lparr>pv = y ! 0, last_root_idx = - 1, printed = []\<rparr>" for p
    by (simp add: find_root_iter_def Let_def)
  then show ?thesis using True
    unfolding find_root_def by (subst (1 2) find_root_loop.simps) simp
qed

text \<open>A chunk whose samples all have the sign class of its first sample reports nothing.\<close>

lemma find_root_constant_sign:
  assumes "\<forall>i<csize. sign3 (y ! i) = sign3 (y ! 0)"
  shows "find_root csize x y prev_value = []"
proof -
  have "j \<notin> indices (find_root csize x y prev_value)" for j
  proof
    assume "j \<in> indices (find_root csize x y prev_value)"
    then have "0 < j" "j < csize" "sign3 (y ! j) \<noteq> sign3 (y ! (j - 1))"
      using find_root_reports_iff[of j csize x y prev_value] by simp_all
    moreover have "j - 1 < csize" using \<open>j < csize\<close> by simp
    ultimately show False
      using assms[rule_format, of j] assms[rule_format, of "j - 1"] by (simp only:)
  qed
  then have "indices (find_root csize x y prev_value) = {}" by blast
  then show ?thesis by (simp add: indices_def)
qed

text \<open>
  Claim C3.  The claim asks for a report at index \<open>i\<close> exactly when the sign of \<open>y[i]\<close>
  differs from the sign of the value before it and the sample before it has not
  reported.  From the second sample of a chunk on the code does so
  (\<open>find_root_reports_iff\<close>), and it reports the example of the claim
  (\<open>find_root_example\<close>).  At the first sample it does not: with \<open>y = 1, 1\<close> and
  \<open>prev_value = -1\<close> the signs at index 0 differ and nothing has been reported before,
  yet the call prints nothing.
\<close>

theorem find_root_drops_first_sample:
  "sign3 ([Finite 1, Finite 1] ! 0) \<noteq> sign3 (Finite (- 1)) \<and>
   find_root 2 [Finite 2, Finite 3] [Finite 1, Finite 1] (Finite (- 1)) = []"
  by (simp add: find_root_eval Let_def)

section \<open>Rounding\<close>

text \<open>\<open>floor_log2\<close> computes the floor of the binary logarithm.\<close>

lemma floor_log2_correct: "0 < r \<Longrightarrow> floor_log2 r = \<lfloor>log 2 r\<rfloor>"
proof (induction r rule: floor_log2.induct)
  case (1 r)
  show ?case
  proof (cases "2 \<le> r")
    case True
    then have "\<lfloor>log 2 (r / 2)\<rfloor> = \<lfloor>log 2 r\<rfloor> - 1" by (simp add: log_divide)
    then show ?thesis using 1 True by (subst floor_log2.simps) simp
  next
    case False
    show ?thesis
    proof (cases "r < 1")
      case True
      have "\<lfloor>log 2 (2 * r)\<rfloor> = \<lfloor>log 2 r\<rfloor> + 1"
        using \<open>0 < r\<close> by (simp add: log_mult add.commute)
      then show ?thesis using 1 True False by (subst floor_log2.simps) simp
    next
      case False
      with \<open>\<not> 2 \<le> r\<close> have "1 \<le> r" "r < 2" by simp_all
      then have "0 \<le> log 2 r" "log 2 r < 1" by simp_all
      then have "\<lfloor>log 2 r\<rfloor> = 0" by linarith
      then show ?thesis using False \<open>\<not> 2 \<le> r\<close> by (subst floor_log2.simps) simp
    qed
  qed
qed

lemma pow2_powr: "pow2 e = 2 powr (of_int e)"
proof (cases "0 \<le> e")
  case True
  then have "(2::real) powr (of_int e) = 2 powr (real (nat e))" by simp
  also have "\<dots> = 2 ^ nat e" by (rule powr_realpow) simp
  finally show ?thesis using True by (simp add: pow2_def)
next
  case False
  then have "(2::real) powr (of_int e) = 2 powr (- real (nat (- e)))" by simp
  also have "\<dots> = 1 / 2 powr (real (nat (- e)))" by (simp add: powr_minus divide_inverse)
  also have "\<dots> = 1 / 2 ^ nat (- e)" by (simp add: powr_realpow)
  finally show ?thesis using False by (simp add: pow2_def)
qed

lemma pow2_pos: "0 < pow2 e"
  by (simp add: pow2_powr)

lemma pow2_floor_log2_le: "0 < r \<Longrightarrow> pow2 (floor_log2 r) \<le> r"
proof -
  assume r: "0 < r"
  have "2 powr (of_int \<lfloor>log 2 r\<rfloor>) \<le> 2 powr (log 2 r)"
    by (rule powr_mono) simp_all
  also have "\<dots> = r" using r by simp
  finally show ?thesis using r by (simp add: pow2_powr floor_log2_correct)
qed

lemma pow2_diff: "pow2 (a - b) = pow2 a / pow2 b"
  by (simp add: pow2_powr powr_diff)

lemma round_even_error: "\<bar>of_int (round_even t) - t\<bar> \<le> 1 / 2"
proof -
  have "of_int \<lfloor>t\<rfloor> \<le> t" "t < of_int \<lfloor>t\<rfloor> + 1" by linarith+
  then show ?thesis by (auto simp: round_even_def nearest_even_def abs_le_iff)
qed

lemma floor_log2_ge:
  assumes "pow2 m \<le> r"
  shows "m \<le> floor_log2 r"
proof -
  have r: "0 < r" using assms pow2_pos[of m] by linarith
  have "log 2 (2 powr (of_int m)) \<le> log 2 r"
    using assms r by (subst log_le_cancel_iff) (simp_all add: pow2_powr)
  then have "of_int m \<le> log 2 r" by simp
  then show ?thesis using r by (simp add: floor_log2_correct le_floor_iff)
qed

lemma round_binary64_error:
  assumes "1 / 2 ^ 1022 \<le> \<bar>r\<bar>"
  shows "\<bar>round_binary64 r - r\<bar> \<le> \<bar>r\<bar> / 2 ^ 53"
proof -
  have pos: "0 < \<bar>r\<bar>" using assms by (smt (verit) zero_less_divide_1_iff zero_less_numeral zero_less_power)
  have "pow2 (- 1022) \<le> \<bar>r\<bar>" using assms by (simp add: pow2_def)
  then have ge: "- 1022 \<le> floor_log2 \<bar>r\<bar>" by (rule floor_log2_ge)
  define p where "p = pow2 (ulp_exp r)"
  have p_pos: "0 < p" by (simp add: p_def pow2_pos)
  have "p = pow2 (floor_log2 \<bar>r\<bar>) / pow2 52"
    using ge by (simp add: p_def ulp_exp_def max_def pow2_diff)
  then have p_le: "p \<le> \<bar>r\<bar> / 2 ^ 52"
    using pow2_floor_log2_le[OF pos] by (simp add: pow2_def divide_right_mono)
  have "round_binary64 r - r = (of_int (round_even (r / p)) - r / p) * p"
    using p_pos by (simp add: round_binary64_def round_to_ulp_def p_def algebra_simps)
  then have "\<bar>round_binary64 r - r\<bar> = \<bar>of_int (round_even (r / p)) - r / p\<bar> * p"
    using p_pos by (simp add: abs_mult)
  also have "\<dots> \<le> (1 / 2) * p"
    using round_even_error[of "r / p"] p_pos by (intro mult_right_mono) simp_all
  also have "\<dots> \<le> (1 / 2) * (\<bar>r\<bar> / 2 ^ 52)" using p_le by simp
  finally show ?thesis by simp
qed

lemma dround_positive:
  assumes "1 / 2 ^ 1022 \<le> r" and "r \<le> 2 ^ 1023"
  shows "\<exists>v. dround r = Finite v \<and> r * (1 - 1 / 2 ^ 53) \<le> v \<and> v \<le> r * (1 + 1 / 2 ^ 53)"
proof -
  have r: "0 < r" using assms(1) by (smt (verit) zero_less_divide_1_iff zero_less_numeral zero_less_power)
  have "\<bar>round_binary64 r - r\<bar> \<le> \<bar>r\<bar> / 2 ^ 53"
    using assms(1) r by (intro round_binary64_error) simp
  then have "\<bar>round_binary64 r - r\<bar> \<le> r / 2 ^ 53" using r by simp
  then have "r - r / 2 ^ 53 \<le> round_binary64 r" "round_binary64 r \<le> r + r / 2 ^ 53"
    by linarith+
  then have b: "r * (1 - 1 / 2 ^ 53) \<le> round_binary64 r" "round_binary64 r \<le> r * (1 + 1 / 2 ^ 53)"
    by (simp_all add: algebra_simps)
  have "r * (1 + 1 / 2 ^ 53) \<le> 2 ^ 1023 * (1 + 1 / 2 ^ 53)"
    using assms(2) by (intro mult_right_mono) simp_all
  also have "\<dots> < (2::real) ^ 1024" by simp
  finally have up: "round_binary64 r < 2 ^ 1024" using b(2) by linarith
  have "0 \<le> r * (1 - 1 / 2 ^ 53)" using r by simp
  then have lo: "0 \<le> round_binary64 r" using b(1) by linarith
  have "dround r = Finite (round_binary64 r)"
    using up lo by (simp add: dround_def with_overflow_def)
  then show ?thesis using b by blast
qed


section \<open>\<open>process_data\<close>\<close>

lemma process_data_loop_nth:
  "length (process_data_loop csize x i y) = length y \<and>
   (\<forall>j < length y. process_data_loop csize x i y ! j =
      (if i \<le> j \<and> j < csize
       then dmul (dmul (dsub (x ! j) (literal (135 / 100))) (dsub (x ! j) (literal (445 / 100))))
                 (dsub (x ! j) (literal (85 / 10)))
       else y ! j))"
proof (induction csize x i y rule: process_data_loop.induct)
  case (1 csize x i y)
  let ?v = "\<lambda>j. dmul (dmul (dsub (x ! j) (literal (135 / 100))) (dsub (x ! j) (literal (445 / 100))))
                 (dsub (x ! j) (literal (85 / 10)))"
  show ?case
  proof (cases "i < csize")
    case False
    then have "process_data_loop csize x i y = y"
      by (subst process_data_loop.simps) simp
    then show ?thesis using False by auto
  next
    case True
    have step: "process_data_loop csize x i y = process_data_loop csize x (Suc i) (y[i := ?v i])"
      using True by (subst process_data_loop.simps) (simp add: Let_def)
    have IH: "length (process_data_loop csize x (Suc i) (y[i := ?v i])) = length (y[i := ?v i]) \<and>
       (\<forall>j < length (y[i := ?v i]). process_data_loop csize x (Suc i) (y[i := ?v i]) ! j =
          (if Suc i \<le> j \<and> j < csize then ?v j else y[i := ?v i] ! j))"
      using "1.IH"[OF True] by (simp add: Let_def)
    have len: "length (process_data_loop csize x i y) = length y"
      using IH by (simp add: step)
    have "process_data_loop csize x i y ! j = (if i \<le> j \<and> j < csize then ?v j else y ! j)"
      if j: "j < length y" for j
    proof (cases "j = i")
      case True
      then show ?thesis using IH j \<open>i < csize\<close> by (simp add: step)
    next
      case False
      then have "(Suc i \<le> j) = (i \<le> j)" by auto
      then show ?thesis using IH j False by (simp add: step)
    qed
    then show ?thesis using len by simp
  qed
qed

lemma process_data_nth:
  assumes "length y = csize" and "i < csize"
  shows "process_data csize x y ! i =
           dmul (dmul (dsub (x ! i) (literal (135 / 100))) (dsub (x ! i) (literal (445 / 100))))
                (dsub (x ! i) (literal (85 / 10)))"
  using assms process_data_loop_nth[of csize x 0 y] by (simp add: process_data_def)

lemma process_data_overwrites:
  assumes "length b = csize" and "length b' = csize"
  shows "process_data csize x b = process_data csize x b'"
proof (rule nth_equalityI)
  show "length (process_data csize x b) = length (process_data csize x b')"
    using assms process_data_loop_nth[of csize x 0 b] process_data_loop_nth[of csize x 0 b']
    by (simp add: process_data_def)
next
  fix i assume "i < length (process_data csize x b)"
  then have "i < csize"
    using assms process_data_loop_nth[of csize x 0 b] by (simp add: process_data_def)
  then show "process_data csize x b ! i = process_data csize x b' ! i"
    using assms process_data_loop_nth[of csize x 0 b] process_data_loop_nth[of csize x 0 b']
    by (simp add: process_data_def)
qed

lemma length_process_data: "length (process_data csize x b) = length b"
  using process_data_loop_nth[of csize x 0 b] by (simp add: process_data_def)

text \<open>
  Claim C5.  For an input chunk \<open>x\<close> and an output buffer \<open>y\<close> of \<open>csize\<close> elements
  (\<open>CHUNKSIZE\<close> in the program), \<open>process_data\<close> leaves in every \<open>y[i]\<close> the value
  \<open>(x[i] - 1.35) * (x[i] - 4.45) * (x[i] - 8.5)\<close>, computed in double arithmetic from left
  to right with the three constants rounded to doubles.  The value depends on \<open>x[i]\<close>
  alone: two input chunks that agree at \<open>i\<close> give the same \<open>y[i]\<close>.
\<close>

theorem process_data_elementwise:
  assumes "length x = csize" and "length y = csize" and "i < csize"
  shows "length (process_data csize x y) = csize \<and>
         process_data csize x y ! i =
           dmul (dmul (dsub (x ! i) (literal (135 / 100))) (dsub (x ! i) (literal (445 / 100))))
                (dsub (x ! i) (literal (85 / 10))) \<and>
         (length x' = csize \<and> length y' = csize \<and> x' ! i = x ! i \<longrightarrow>
            process_data csize x' y' ! i = process_data csize x y ! i)"
  using assms process_data_loop_nth[of csize x 0 y] process_data_loop_nth[of csize x' 0 y']
  by (simp add: process_data_def)

theorem process_data_elementwise_witness:
  "length (replicate CHUNKSIZE (Finite 2)) = CHUNKSIZE \<and>
   length (replicate CHUNKSIZE (Finite 0)) = CHUNKSIZE \<and> 7 < CHUNKSIZE \<and>
   process_data CHUNKSIZE (replicate CHUNKSIZE (Finite 2)) (replicate CHUNKSIZE (Finite 0)) ! 7 =
     dmul (dmul (dsub (Finite 2) (literal (135 / 100))) (dsub (Finite 2) (literal (445 / 100))))
          (dsub (Finite 2) (literal (85 / 10)))"
proof -
  have h: "length (replicate CHUNKSIZE (Finite 2)) = CHUNKSIZE"
    "length (replicate CHUNKSIZE (Finite 0)) = CHUNKSIZE" "7 < CHUNKSIZE"
    by (simp_all add: CHUNKSIZE_def)
  show ?thesis using h process_data_elementwise[OF h] by simp
qed

section \<open>\<open>fill_buffer\<close>\<close>

lemma int32_id: "- (2 ^ 31) \<le> v \<Longrightarrow> v < 2 ^ 31 \<Longrightarrow> int32 v = v"
  by (simp add: int32_def)

lemmas dround_eval = dround_def with_overflow_def round_binary64_def round_to_ulp_def ulp_exp_def
  floor_log2.simps pow2_def round_even_def nearest_even_def

lemma literal_10: "literal 10 = Finite 10"
  by (simp add: literal_def dround_eval)

lemma incx_program: "incx NCHUNKS CHUNKSIZE = Finite (944473296573929 / 2 ^ 73)"
proof -
  have "int32 (int NCHUNKS * int CHUNKSIZE) = 100000000"
    by (simp add: NCHUNKS_def CHUNKSIZE_def int32_def)
  then show ?thesis
    by (simp add: incx_def literal_10 int_to_double_def dround_eval)
qed

lemma fill_buffer_loop_nth:
  "length (fill_buffer_loop nchunks csize nchunk i x) = length x \<and>
   (\<forall>j < length x. fill_buffer_loop nchunks csize nchunk i x ! j =
      (if i \<le> j \<and> j < csize
       then dmul (incx nchunks csize) (int_to_double (int32 (int32 (nchunk * int csize) + int j)))
       else x ! j))"
proof (induction nchunks csize nchunk i x rule: fill_buffer_loop.induct)
  case (1 nchunks csize nchunk i x)
  let ?v = "\<lambda>j. dmul (incx nchunks csize) (int_to_double (int32 (int32 (nchunk * int csize) + int j)))"
  show ?case
  proof (cases "i < csize")
    case False
    then have "fill_buffer_loop nchunks csize nchunk i x = x"
      by (subst fill_buffer_loop.simps) simp
    then show ?thesis using False by auto
  next
    case True
    have step: "fill_buffer_loop nchunks csize nchunk i x =
        fill_buffer_loop nchunks csize nchunk (Suc i) (x[i := ?v i])"
      using True by (subst fill_buffer_loop.simps) simp
    note IH = "1.IH"[OF True]
    have len: "length (fill_buffer_loop nchunks csize nchunk i x) = length x"
      using IH by (simp add: step)
    have "fill_buffer_loop nchunks csize nchunk i x ! j =
            (if i \<le> j \<and> j < csize then ?v j else x ! j)" if j: "j < length x" for j
    proof (cases "j = i")
      case True
      then show ?thesis using IH j \<open>i < csize\<close> by (simp add: step)
    next
      case False
      then have "(Suc i \<le> j) = (i \<le> j)" by auto
      then show ?thesis using IH j False by (simp add: step)
    qed
    then show ?thesis using len by simp
  qed
qed

lemma fill_buffer_overwrites:
  assumes "length b = csize" and "length b' = csize"
  shows "fill_buffer nchunks csize b nchunk = fill_buffer nchunks csize b' nchunk"
proof (rule nth_equalityI)
  show "length (fill_buffer nchunks csize b nchunk) = length (fill_buffer nchunks csize b' nchunk)"
    using assms fill_buffer_loop_nth[of nchunks csize nchunk 0 b]
      fill_buffer_loop_nth[of nchunks csize nchunk 0 b'] by (simp add: fill_buffer_def)
next
  fix i assume "i < length (fill_buffer nchunks csize b nchunk)"
  then have "i < csize"
    using assms fill_buffer_loop_nth[of nchunks csize nchunk 0 b] by (simp add: fill_buffer_def)
  then show "fill_buffer nchunks csize b nchunk ! i = fill_buffer nchunks csize b' nchunk ! i"
    using assms fill_buffer_loop_nth[of nchunks csize nchunk 0 b]
      fill_buffer_loop_nth[of nchunks csize nchunk 0 b'] by (simp add: fill_buffer_def)
qed

lemma length_fill_buffer: "length (fill_buffer nchunks csize b nchunk) = length b"
  using fill_buffer_loop_nth[of nchunks csize nchunk 0 b] by (simp add: fill_buffer_def)

lemma fill_buffer_twice:
  "length b = csize \<Longrightarrow>
   fill_buffer nchunks csize (fill_buffer nchunks csize b nchunk') nchunk =
   fill_buffer nchunks csize b nchunk"
  by (intro fill_buffer_overwrites) (simp_all add: length_fill_buffer)

lemma fill_buffer_index_in_range:
  assumes "0 \<le> nchunk" "nchunk < int NCHUNKS" "i < CHUNKSIZE"
  shows "int32 (int32 (nchunk * int CHUNKSIZE) + int i) = nchunk * int CHUNKSIZE + int i"
proof -
  have a: "0 \<le> nchunk * int CHUNKSIZE" using assms(1) by simp
  have "nchunk * int CHUNKSIZE \<le> 499 * int CHUNKSIZE"
    using assms(2) by (intro mult_right_mono) (simp_all add: NCHUNKS_def)
  then have b: "nchunk * int CHUNKSIZE \<le> 99800000" by (simp add: CHUNKSIZE_def)
  have c: "int i < 200000" using assms(3) by (simp add: CHUNKSIZE_def)
  have "int32 (nchunk * int CHUNKSIZE) = nchunk * int CHUNKSIZE"
    using a b by (intro int32_id) simp_all
  moreover have "int32 (nchunk * int CHUNKSIZE + int i) = nchunk * int CHUNKSIZE + int i"
    using a b c by (intro int32_id) simp_all
  ultimately show ?thesis by simp
qed

text \<open>
  Claim C6.  For a chunk index \<open>nchunk\<close> in \<open>0..NCHUNKS-1\<close> and an element index \<open>i\<close> in
  \<open>0..CHUNKSIZE-1\<close>, \<open>fill_buffer\<close> writes \<open>x[i] = incx * (nchunk * CHUNKSIZE + i)\<close> with
  \<open>incx = 10 / (NCHUNKS * CHUNKSIZE)\<close>: the quotient and the product are those of
  doubles, and the integer \<open>nchunk * CHUNKSIZE + i\<close> is the global index itself (the
  \<open>int\<close> arithmetic does not overflow).  The buffer's earlier content plays no part.
\<close>

theorem fill_buffer_values:
  assumes "length x = CHUNKSIZE" and "0 \<le> nchunk" and "nchunk < int NCHUNKS" and "i < CHUNKSIZE"
  shows "fill_buffer NCHUNKS CHUNKSIZE x nchunk ! i =
           dmul (ddiv (Finite 10) (Finite (real NCHUNKS * real CHUNKSIZE)))
                (Finite (of_int (nchunk * int CHUNKSIZE + int i)))"
proof -
  have "ddiv (Finite 10) (Finite (real NCHUNKS * real CHUNKSIZE)) = incx NCHUNKS CHUNKSIZE"
    by (simp add: incx_program) (simp add: NCHUNKS_def CHUNKSIZE_def dround_eval)
  moreover have "fill_buffer NCHUNKS CHUNKSIZE x nchunk ! i =
      dmul (incx NCHUNKS CHUNKSIZE)
        (int_to_double (int32 (int32 (nchunk * int CHUNKSIZE) + int i)))"
    using assms(1,4) fill_buffer_loop_nth[of NCHUNKS CHUNKSIZE nchunk 0 x]
    by (simp add: fill_buffer_def)
  ultimately show ?thesis
    using fill_buffer_index_in_range[OF assms(2,3,4)] by (simp add: int_to_double_def)
qed

theorem fill_buffer_values_witness:
  "length (replicate CHUNKSIZE NaN) = CHUNKSIZE \<and> (0::int) \<le> 499 \<and> 499 < int NCHUNKS \<and>
   199999 < CHUNKSIZE \<and>
   fill_buffer NCHUNKS CHUNKSIZE (replicate CHUNKSIZE NaN) 499 ! 199999 =
     dmul (ddiv (Finite 10) (Finite (real NCHUNKS * real CHUNKSIZE)))
          (Finite (of_int (499 * int CHUNKSIZE + int 199999)))"
proof -
  have h: "length (replicate CHUNKSIZE NaN) = CHUNKSIZE" "(0::int) \<le> 499" "499 < int NCHUNKS"
    "199999 < CHUNKSIZE"
    by (simp_all add: CHUNKSIZE_def NCHUNKS_def)
  show ?thesis using h fill_buffer_values[OF h] by simp
qed

lemma sample_bounds:
  assumes "0 \<le> g" and "g < 100000000"
  shows "\<exists>v. dmul (incx NCHUNKS CHUNKSIZE) (Finite (of_int g)) = Finite v \<and>
             944473296573929 / 2 ^ 73 * of_int g * (1 - 1 / 2 ^ 53) \<le> v \<and>
             v \<le> 944473296573929 / 2 ^ 73 * of_int g * (1 + 1 / 2 ^ 53)"
proof (cases "g = 0")
  case True
  have "dround 0 = Finite 0" by (simp add: dround_eval)
  then show ?thesis using True by (simp add: incx_program)
next
  case False
  let ?c = "944473296573929 / 2 ^ 73 :: real"
  have g1: "1 \<le> (of_int g :: real)" using assms(1) False by linarith
  have g2: "(of_int g :: real) \<le> 100000000" using assms(2) by linarith
  have "?c * 1 \<le> ?c * of_int g" using g1 by (intro mult_left_mono) simp_all
  then have lo: "1 / 2 ^ 1022 \<le> ?c * of_int g" by simp
  have "?c * of_int g \<le> ?c * 100000000" using g2 by (intro mult_left_mono) simp_all
  then have hi: "?c * of_int g \<le> 2 ^ 1023" by simp
  from dround_positive[OF lo hi] show ?thesis by (simp add: incx_program)
qed

lemma fill_buffer_sample:
  assumes "length x = CHUNKSIZE" and "nchunk < NCHUNKS" and "i < CHUNKSIZE"
  shows "fill_buffer NCHUNKS CHUNKSIZE x (int nchunk) ! i =
           dmul (incx NCHUNKS CHUNKSIZE) (Finite (of_int (int (nchunk * CHUNKSIZE + i))))"
proof -
  have "fill_buffer NCHUNKS CHUNKSIZE x (int nchunk) ! i =
      dmul (incx NCHUNKS CHUNKSIZE)
        (int_to_double (int32 (int32 (int nchunk * int CHUNKSIZE) + int i)))"
    using assms(1,3) fill_buffer_loop_nth[of NCHUNKS CHUNKSIZE "int nchunk" 0 x]
    by (simp add: fill_buffer_def)
  moreover have "int32 (int32 (int nchunk * int CHUNKSIZE) + int i) = int nchunk * int CHUNKSIZE + int i"
    using assms(2,3) by (intro fill_buffer_index_in_range) simp_all
  ultimately show ?thesis by (simp add: int_to_double_def)
qed

lemma global_index_bound:
  assumes "nchunk < NCHUNKS" and "i < CHUNKSIZE"
  shows "int (nchunk * CHUNKSIZE + i) < 100000000"
proof -
  have "nchunk * CHUNKSIZE \<le> 499 * CHUNKSIZE"
    using assms(1) by (intro mult_le_mono1) (simp add: NCHUNKS_def)
  then show ?thesis using assms(2) by (simp add: CHUNKSIZE_def)
qed

text \<open>
  Claim C10.  The generated samples increase strictly with the global index
  \<open>nchunk * CHUNKSIZE + i\<close> over all chunks, the sample of global index 0 is 0, and every
  sample is a finite value in \<open>[0, 10)\<close>.
\<close>

theorem fill_buffer_increasing:
  assumes "length x = CHUNKSIZE" and "length x' = CHUNKSIZE"
    and "nchunk < NCHUNKS" and "i < CHUNKSIZE" and "nchunk' < NCHUNKS" and "i' < CHUNKSIZE"
  shows "(nchunk * CHUNKSIZE + i < nchunk' * CHUNKSIZE + i' \<longrightarrow>
            dless (fill_buffer NCHUNKS CHUNKSIZE x (int nchunk) ! i)
                  (fill_buffer NCHUNKS CHUNKSIZE x' (int nchunk') ! i')) \<and>
         (nchunk * CHUNKSIZE + i = 0 \<longrightarrow>
            fill_buffer NCHUNKS CHUNKSIZE x (int nchunk) ! i = Finite 0) \<and>
         (\<exists>v. fill_buffer NCHUNKS CHUNKSIZE x (int nchunk) ! i = Finite v \<and> 0 \<le> v \<and> v < 10)"
proof -
  let ?c = "944473296573929 / 2 ^ 73 :: real"
  let ?u = "1 / 2 ^ 53 :: real"
  define g where "g = int (nchunk * CHUNKSIZE + i)"
  define g' where "g' = int (nchunk' * CHUNKSIZE + i')"
  have g: "0 \<le> g" "g < 100000000"
    using global_index_bound[OF assms(3,4)] by (simp_all add: g_def)
  have g': "0 \<le> g'" "g' < 100000000"
    using global_index_bound[OF assms(5,6)] by (simp_all add: g'_def)
  obtain v where v: "fill_buffer NCHUNKS CHUNKSIZE x (int nchunk) ! i = Finite v"
      "?c * of_int g * (1 - ?u) \<le> v" "v \<le> ?c * of_int g * (1 + ?u)"
    using sample_bounds[OF g] fill_buffer_sample[OF assms(1,3,4)] unfolding g_def by auto
  obtain v' where v': "fill_buffer NCHUNKS CHUNKSIZE x' (int nchunk') ! i' = Finite v'"
      "?c * of_int g' * (1 - ?u) \<le> v'" "v' \<le> ?c * of_int g' * (1 + ?u)"
    using sample_bounds[OF g'] fill_buffer_sample[OF assms(2,5,6)] unfolding g'_def by auto
  have gr: "0 \<le> (of_int g :: real)" "(of_int g :: real) \<le> 99999999"
    using g by linarith+
  have mono: "v < v'" if "g < g'"
  proof -
    have "(of_int g :: real) + 1 \<le> of_int g'" using that by linarith
    moreover have "(of_int g' :: real) \<le> 99999999" using g' by linarith
    ultimately have "of_int g * (1 + ?u) < of_int g' * (1 - ?u)"
      using gr by (simp add: algebra_simps)
    then have "?c * (of_int g * (1 + ?u)) < ?c * (of_int g' * (1 - ?u))"
      by (intro mult_strict_left_mono) simp_all
    then show ?thesis using v(3) v'(2) by (simp add: mult.assoc)
  qed
  have zero: "v = 0" if "g = 0" using that v(2,3) by simp
  have "0 \<le> ?c * of_int g * (1 - ?u)" using gr by simp
  then have nonneg: "0 \<le> v" using v(2) by linarith
  have "?c * of_int g * (1 + ?u) \<le> ?c * 99999999 * (1 + ?u)"
    using gr by (intro mult_right_mono mult_left_mono) simp_all
  also have "\<dots> < 10" by simp
  finally have below: "v < 10" using v(3) by linarith
  have "g < g'" if "nchunk * CHUNKSIZE + i < nchunk' * CHUNKSIZE + i'"
    unfolding g_def g'_def using that by (simp only: of_nat_less_iff)
  moreover have "g = 0" if "nchunk * CHUNKSIZE + i = 0" using that by (simp add: g_def)
  ultimately show ?thesis using v(1) v'(1) mono zero nonneg below by auto
qed

theorem fill_buffer_increasing_witness:
  "length (replicate CHUNKSIZE NaN) = CHUNKSIZE \<and> 424 < NCHUNKS \<and> 199999 < CHUNKSIZE \<and>
   425 < NCHUNKS \<and> 0 < CHUNKSIZE \<and>
   dless (fill_buffer NCHUNKS CHUNKSIZE (replicate CHUNKSIZE NaN) (int 424) ! 199999)
         (fill_buffer NCHUNKS CHUNKSIZE (replicate CHUNKSIZE NaN) (int 425) ! 0)"
proof -
  have h: "length (replicate CHUNKSIZE NaN) = CHUNKSIZE" "length (replicate CHUNKSIZE NaN) = CHUNKSIZE"
    "424 < NCHUNKS" "199999 < CHUNKSIZE" "425 < NCHUNKS" "0 < CHUNKSIZE"
    by (simp_all add: CHUNKSIZE_def NCHUNKS_def)
  have "424 * CHUNKSIZE + 199999 < 425 * CHUNKSIZE + 0" by (simp add: CHUNKSIZE_def)
  then show ?thesis using h fill_buffer_increasing[OF h] by simp
qed

section \<open>Early return\<close>

lemma decompress_into_trace:
  "decompress_into b sc n s = (d, s1) \<Longrightarrow> trace s1 = trace s @ [Decompressed sc (int n) d]"
  by (auto simp: decompress_into_def split: prod.splits schunk.splits)

lemma append_from_trace: "trace (append_from b sc s) = trace s @ [Appended sc]"
  by (simp add: append_from_def)

lemma generate_loop_clean:
  "clean (trace s) \<Longrightarrow>
   clean (trace (generate_loop b nchunks csize nchunk s))"
proof (induction b nchunks csize nchunk s rule: generate_loop.induct)
  case (1 b nchunks csize nchunk s)
  show ?case
  proof (cases "nchunk < nchunks")
    case False
    then show ?thesis using "1.prems" by (subst generate_loop.simps) simp
  next
    case True
    then show ?thesis using "1.IH"[OF True] "1.prems"
      by (subst generate_loop.simps) (simp add: append_from_trace failed_def clean_def)
  qed
qed

lemma transform_loop_ok:
  "clean (trace s) \<Longrightarrow> transform_loop b nchunks csize nchunk s = (r, s') \<Longrightarrow>
   run_ok r (trace s')"
proof (induction b nchunks csize nchunk s rule: transform_loop.induct)
  case (1 b nchunks csize nchunk s)
  show ?case
  proof (cases "nchunk < nchunks")
    case False
    then show ?thesis using "1.prems" by (subst (asm) transform_loop.simps) (auto simp: run_ok_def)
  next
    case True
    obtain d s1 where dec: "decompress_into b SC_X nchunk s = (d, s1)" by force
    note tr = decompress_into_trace[OF dec]
    show ?thesis
    proof (cases "d < 0")
      case True
      then have "r = Some d" "s' = s1"
        using "1.prems"(2) \<open>nchunk < nchunks\<close> dec by (subst (asm) transform_loop.simps; simp)+
      then show ?thesis using True tr "1.prems"(1) by (simp add: run_ok_def clean_def)
    next
      case False
      let ?s3 = "append_from b SC_Y (s1\<lparr>buffer_y := process_data csize (buffer_x s1) (buffer_y s1)\<rparr>)"
      have clean: "clean (trace ?s3)"
        using "1.prems"(1) tr False by (simp add: append_from_trace failed_def clean_def)
      have "transform_loop b nchunks csize (Suc nchunk) ?s3 = (r, s')"
        using "1.prems"(2) \<open>nchunk < nchunks\<close> dec False by (subst (asm) transform_loop.simps) simp
      then show ?thesis using "1.IH"[OF True dec[symmetric] False clean] by simp
    qed
  qed
qed


lemma scan_loop_ok:
  "clean (trace s) \<Longrightarrow>
   scan_loop b nchunks csize nchunk prev_value s = (r, s') \<Longrightarrow> run_ok r (trace s')"
proof (induction b nchunks csize nchunk prev_value s rule: scan_loop.induct)
  case (1 b nchunks csize nchunk prev_value s)
  show ?case
  proof (cases "nchunk < nchunks")
    case False
    then show ?thesis using "1.prems" by (subst (asm) scan_loop.simps) (auto simp: run_ok_def)
  next
    case True
    obtain d s1 where dec: "decompress_into b SC_Y nchunk s = (d, s1)" by force
    note tr = decompress_into_trace[OF dec]
    show ?thesis
    proof (cases "d < 0")
      case True
      then have "r = Some d" "s' = s1"
        using "1.prems"(2) \<open>nchunk < nchunks\<close> dec by (subst (asm) scan_loop.simps; simp)+
      then show ?thesis using True tr "1.prems"(1) by (simp add: run_ok_def clean_def)
    next
      case False
      obtain d' s2 where dec': "decompress_into b SC_X nchunk s1 = (d', s2)" by force
      note tr' = decompress_into_trace[OF dec']
      show ?thesis
      proof (cases "d' < 0")
        case True
        then have "r = Some d'" "s' = s2"
          using "1.prems"(2) \<open>nchunk < nchunks\<close> dec dec' False
          by (subst (asm) scan_loop.simps; simp)+
        then show ?thesis using True tr tr' False "1.prems"(1)
          by (simp add: run_ok_def failed_def clean_def butlast_append)
      next
        case d'_ok: False
        let ?s3 = "s2\<lparr>trace := trace s2 @
                      map (\<lambda>r. Root (snd r)) (find_root csize (buffer_x s2) (buffer_y s2) prev_value)\<rparr>"
        have clean: "clean (trace ?s3)"
          using "1.prems"(1) tr tr' False d'_ok by (auto simp: failed_def clean_def list_all_iff)
        have "scan_loop b nchunks csize (Suc nchunk) (buffer_y s2 ! (csize - 1)) ?s3 = (r, s')"
          using "1.prems"(2) \<open>nchunk < nchunks\<close> dec dec' False d'_ok
          by (subst (asm) scan_loop.simps) simp
        then show ?thesis
          using "1.IH"[OF True dec[symmetric] False dec'[symmetric] d'_ok clean] by simp
      qed
    qed
  qed
qed

lemma compute_vectors_ok:
  assumes "compute_vectors b nchunks csize l0 = (ret, s)"
  shows "(ret = 0 \<and> run_ok None (trace s)) \<or> run_ok (Some ret) (trace s)"
proof -
  obtain r1 s1 where t: "transform_phase b nchunks csize l0 = (r1, s1)" by force
  have "clean (trace (generate_phase b nchunks csize l0))"
    unfolding generate_phase_def by (rule generate_loop_clean) (simp add: initial_def clean_def)
  then have ok1: "run_ok r1 (trace s1)"
    using t unfolding transform_phase_def by (rule transform_loop_ok)
  show ?thesis
  proof (cases r1)
    case (Some d)
    then show ?thesis using assms t ok1 by (simp add: compute_vectors_def)
  next
    case None
    obtain r2 s2 where sc: "scan_loop b nchunks csize 0 (buffer_y s1 ! 0) s1 = (r2, s2)" by force
    have "clean (trace s1)" using ok1 None by (simp add: run_ok_def clean_def)
    then have ok2: "run_ok r2 (trace s2)" using sc by (rule scan_loop_ok)
    show ?thesis using assms t None sc ok2 by (cases r2) (auto simp: compute_vectors_def)
  qed
qed

text \<open>
  Claim C7.  When a call of \<open>blosc2_decompress_chunk\<close> returns a negative value, in the
  second loop or in the third, \<open>compute_vectors\<close> returns that value at once: the failed
  call is the last event of the run, so no further chunk is decompressed, computed,
  appended or scanned.
\<close>

theorem compute_vectors_aborts_on_failure:
  assumes "compute_vectors b nchunks csize l0 = (ret, s)"
    and "trace s = before @ Decompressed sc n dsize # after"
    and "dsize < 0"
  shows "after = [] \<and> ret = dsize"
proof -
  have bad: "failed (Decompressed sc n dsize)" using assms(3) by (simp add: failed_def)
  from compute_vectors_ok[OF assms(1)] show ?thesis
  proof
    assume "ret = 0 \<and> run_ok None (trace s)"
    then have "clean (trace s)" by (simp add: run_ok_def clean_def)
    then show ?thesis using assms(2) bad by (simp add: clean_def)
  next
    assume "run_ok (Some ret) (trace s)"
    then obtain sc' n' where l: "last (trace s) = Decompressed sc' n' ret"
      and c: "clean (butlast (trace s))"
      by (auto simp: run_ok_def)
    have a: "after = []"
    proof (rule ccontr)
      assume "after \<noteq> []"
      then have "butlast (trace s) = before @ Decompressed sc n dsize # butlast after"
        using assms(2) by (simp add: butlast_append)
      then show False using c bad by (simp add: clean_def)
    qed
    then show ?thesis using l assms(2) by simp
  qed
qed

section \<open>Runs on the plain store\<close>

text \<open>
  On the plain store every call succeeds and gives back what was appended, so the
  three loops can be followed in closed form, for every number and size of chunks.
\<close>

lemma store_into_whole: "length data = length buf \<Longrightarrow> store_into data buf = data"
  by (simp add: store_into_def)

lemma generate_loop_plain:
  assumes "length (buffer_x s) = csize" and "k \<le> n"
  shows "generate_loop plain_store n csize k s =
     s\<lparr>buffer_x := (if k < n then fill_buffer n csize (buffer_x s) (int (n - 1)) else buffer_x s),
       lib := (lib s)\<lparr>chunks_x := chunks_x (lib s) @
                 map (\<lambda>j. fill_buffer n csize (buffer_x s) (int j)) [k..<n]\<rparr>,
       trace := trace s @ replicate (n - k) (Appended SC_X)\<rparr>"
  using assms
proof (induction plain_store n csize k s rule: generate_loop.induct)
  case (1 n csize k s)
  show ?case
  proof (cases "k < n")
    case False
    then have "k = n" using "1.prems" by simp
    then show ?thesis by (subst generate_loop.simps) simp
  next
    case True
    let ?F = "\<lambda>j. fill_buffer n csize (buffer_x s) (int j)"
    define s1 where "s1 = append_from plain_store SC_X (s\<lparr>buffer_x := ?F k\<rparr>)"
    have s1: "s1 = s\<lparr>buffer_x := ?F k, lib := (lib s)\<lparr>chunks_x := chunks_x (lib s) @ [?F k]\<rparr>,
                    trace := trace s @ [Appended SC_X]\<rparr>"
      by (simp add: s1_def append_from_def plain_store_def)
    have len: "length (buffer_x s1) = csize"
      using "1.prems"(1) by (simp add: s1 length_fill_buffer)
    have upt: "[k..<n] = k # [Suc k..<n]" using True by (simp add: upt_conv_Cons)
    have rep: "replicate (n - k) (Appended SC_X) = Appended SC_X # replicate (n - Suc k) (Appended SC_X)"
      using True by (cases "n - k") simp_all
    have "k = n - 1" if "\<not> Suc k < n" using that True by simp
    then have last: "(if Suc k < n then ?F (n - 1) else ?F k) = ?F (n - 1)"
      by (cases "Suc k < n") simp_all
    have "generate_loop plain_store n csize k s = generate_loop plain_store n csize (Suc k) s1"
      using True by (subst generate_loop.simps) (simp add: s1_def)
    also have "\<dots> = s1\<lparr>buffer_x := (if Suc k < n then fill_buffer n csize (buffer_x s1) (int (n - 1)) else buffer_x s1),
       lib := (lib s1)\<lparr>chunks_x := chunks_x (lib s1) @
                 map (\<lambda>j. fill_buffer n csize (buffer_x s1) (int j)) [Suc k..<n]\<rparr>,
       trace := trace s1 @ replicate (n - Suc k) (Appended SC_X)\<rparr>"
      using True len unfolding s1_def by (intro "1.hyps") simp_all
    also have "\<dots> = s\<lparr>buffer_x := (if Suc k < n then ?F (n - 1) else ?F k),
       lib := (lib s)\<lparr>chunks_x := chunks_x (lib s) @ ?F k # map ?F [Suc k..<n]\<rparr>,
       trace := trace s @ Appended SC_X # replicate (n - Suc k) (Appended SC_X)\<rparr>"
      using "1.prems"(1) by (simp add: s1 fill_buffer_twice)
    also have "\<dots> = s\<lparr>buffer_x := ?F (n - 1),
       lib := (lib s)\<lparr>chunks_x := chunks_x (lib s) @ map ?F [k..<n]\<rparr>,
       trace := trace s @ replicate (n - k) (Appended SC_X)\<rparr>"
      unfolding last upt rep by simp
    finally show ?thesis using True by simp
  qed
qed


lemma decompress_into_plain:
  assumes "k < length (chunks_of sc (lib s))"
  shows "decompress_into plain_store sc k s =
     (8 * int (length (chunks_of sc (lib s) ! k)),
      (case sc of
         SC_X \<Rightarrow> s\<lparr>buffer_x := store_into (chunks_of sc (lib s) ! k) (buffer_x s)\<rparr>
       | SC_Y \<Rightarrow> s\<lparr>buffer_y := store_into (chunks_of sc (lib s) ! k) (buffer_y s)\<rparr>)
      \<lparr>trace := trace s @ [Decompressed sc (int k) (8 * int (length (chunks_of sc (lib s) ! k)))]\<rparr>)"
  using assms by (cases sc) (simp_all add: decompress_into_def plain_store_def)

lemma transform_loop_plain:
  assumes "length (buffer_x s) = csize" and "length (buffer_y s) = csize"
    and "n \<le> length (chunks_x (lib s))" and "\<forall>j<n. length (chunks_x (lib s) ! j) = csize"
    and "k \<le> n"
  shows "transform_loop plain_store n csize k s =
     (None,
      s\<lparr>buffer_x := (if k < n then chunks_x (lib s) ! (n - 1) else buffer_x s),
        buffer_y := (if k < n then process_data csize (chunks_x (lib s) ! (n - 1)) (buffer_y s)
                     else buffer_y s),
        lib := (lib s)\<lparr>chunks_y := chunks_y (lib s) @
                  map (\<lambda>j. process_data csize (chunks_x (lib s) ! j) (buffer_y s)) [k..<n]\<rparr>,
        trace := trace s @
                 concat (map (\<lambda>j. [Decompressed SC_X (int j) (8 * int csize), Appended SC_Y]) [k..<n])\<rparr>)"
  using assms
proof (induction plain_store n csize k s rule: transform_loop.induct)
  case (1 n csize k s)
  show ?case
  proof (cases "k < n")
    case False
    then have "k = n" using "1.prems" by simp
    then show ?thesis by (subst transform_loop.simps) simp
  next
    case True
    let ?xs = "chunks_x (lib s)"
    let ?P = "\<lambda>j. process_data csize (?xs ! j) (buffer_y s)"
    have k_ok: "k < length (chunks_of SC_X (lib s))" "length (?xs ! k) = csize"
      using True "1.prems"(3,4) by (simp_all add: chunks_of_def)
    define s1 where "s1 = s\<lparr>buffer_x := ?xs ! k,
       trace := trace s @ [Decompressed SC_X (int k) (8 * int csize)]\<rparr>"
    have dec: "decompress_into plain_store SC_X k s = (8 * int csize, s1)"
      using decompress_into_plain[OF k_ok(1)] k_ok(2) "1.prems"(1)
      by (simp add: chunks_of_def store_into_whole s1_def)
    define s3 where "s3 = append_from plain_store SC_Y
       (s1\<lparr>buffer_y := process_data csize (buffer_x s1) (buffer_y s1)\<rparr>)"
    have s3: "s3 = s\<lparr>buffer_x := ?xs ! k, buffer_y := ?P k,
       lib := (lib s)\<lparr>chunks_y := chunks_y (lib s) @ [?P k]\<rparr>,
       trace := trace s @ [Decompressed SC_X (int k) (8 * int csize), Appended SC_Y]\<rparr>"
      by (simp add: s3_def s1_def append_from_def plain_store_def)
    have P: "process_data csize x (?P k) = process_data csize x (buffer_y s)" for x
      using "1.prems"(2) by (intro process_data_overwrites) (simp_all add: length_process_data)
    have upt: "[k..<n] = k # [Suc k..<n]" using True by (simp add: upt_conv_Cons)
    have "k = n - 1" if "\<not> Suc k < n" using that True by simp
    then have last: "(if Suc k < n then ?xs ! (n - 1) else ?xs ! k) = ?xs ! (n - 1)"
      "(if Suc k < n then ?P (n - 1) else ?P k) = ?P (n - 1)"
      by (cases "Suc k < n"; simp)+
    have "transform_loop plain_store n csize k s = transform_loop plain_store n csize (Suc k) s3"
      using True dec by (subst transform_loop.simps) (simp add: s3_def)
    also have "\<dots> = (None,
      s3\<lparr>buffer_x := (if Suc k < n then chunks_x (lib s3) ! (n - 1) else buffer_x s3),
        buffer_y := (if Suc k < n then process_data csize (chunks_x (lib s3) ! (n - 1)) (buffer_y s3)
                     else buffer_y s3),
        lib := (lib s3)\<lparr>chunks_y := chunks_y (lib s3) @
                  map (\<lambda>j. process_data csize (chunks_x (lib s3) ! j) (buffer_y s3)) [Suc k..<n]\<rparr>,
        trace := trace s3 @
                 concat (map (\<lambda>j. [Decompressed SC_X (int j) (8 * int csize), Appended SC_Y]) [Suc k..<n])\<rparr>)"
      unfolding s3_def
    proof (intro "1.hyps"[OF True dec[symmetric]])
      show "\<not> 8 * int csize < 0" by simp
    qed (use True "1.prems" k_ok in \<open>simp_all add: s1_def append_from_def plain_store_def length_process_data\<close>)
    also have "\<dots> = (None,
      s\<lparr>buffer_x := (if Suc k < n then ?xs ! (n - 1) else ?xs ! k),
        buffer_y := (if Suc k < n then ?P (n - 1) else ?P k),
        lib := (lib s)\<lparr>chunks_y := chunks_y (lib s) @ ?P k # map ?P [Suc k..<n]\<rparr>,
        trace := trace s @ Decompressed SC_X (int k) (8 * int csize) # Appended SC_Y #
                 concat (map (\<lambda>j. [Decompressed SC_X (int j) (8 * int csize), Appended SC_Y]) [Suc k..<n])\<rparr>)"
      by (simp add: s3 P)
    also have "\<dots> = (None,
      s\<lparr>buffer_x := ?xs ! (n - 1), buffer_y := ?P (n - 1),
        lib := (lib s)\<lparr>chunks_y := chunks_y (lib s) @ map ?P [k..<n]\<rparr>,
        trace := trace s @
                 concat (map (\<lambda>j. [Decompressed SC_X (int j) (8 * int csize), Appended SC_Y]) [k..<n])\<rparr>)"
      unfolding last upt by simp
    finally show ?thesis using True by simp
  qed
qed


lemma transform_phase_plain:
  "transform_phase plain_store n csize empty_store =
     (None,
      \<lparr>buffer_x = (if 0 < n then fill_buffer n csize (replicate csize (Finite 0)) (int (n - 1))
                    else replicate csize (Finite 0)),
       buffer_y = (if 0 < n
                   then process_data csize (fill_buffer n csize (replicate csize (Finite 0)) (int (n - 1)))
                          (replicate csize (Finite 0))
                   else replicate csize (Finite 0)),
       lib = \<lparr>chunks_x = map (\<lambda>j. fill_buffer n csize (replicate csize (Finite 0)) (int j)) [0..<n],
              chunks_y = map (\<lambda>j. process_data csize
                                   (fill_buffer n csize (replicate csize (Finite 0)) (int j))
                                   (replicate csize (Finite 0))) [0..<n]\<rparr>,
       trace = replicate n (Appended SC_X) @
               concat (map (\<lambda>j. [Decompressed SC_X (int j) (8 * int csize), Appended SC_Y]) [0..<n])\<rparr>)"
proof -
  let ?b0 = "replicate csize (Finite 0)"
  let ?F = "\<lambda>j. fill_buffer n csize ?b0 (int j)"
  define g where "g = generate_phase plain_store n csize empty_store"
  have g: "g = \<lparr>buffer_x = (if 0 < n then ?F (n - 1) else ?b0), buffer_y = ?b0,
                lib = \<lparr>chunks_x = map ?F [0..<n], chunks_y = []\<rparr>,
                trace = replicate n (Appended SC_X)\<rparr>"
    unfolding g_def generate_phase_def
    by (subst generate_loop_plain[where csize = csize]) (simp_all add: initial_def empty_store_def)
  have "transform_loop plain_store n csize 0 g =
     (None,
      g\<lparr>buffer_x := (if 0 < n then chunks_x (lib g) ! (n - 1) else buffer_x g),
        buffer_y := (if 0 < n then process_data csize (chunks_x (lib g) ! (n - 1)) (buffer_y g)
                     else buffer_y g),
        lib := (lib g)\<lparr>chunks_y := chunks_y (lib g) @
                  map (\<lambda>j. process_data csize (chunks_x (lib g) ! j) (buffer_y g)) [0..<n]\<rparr>,
        trace := trace g @
                 concat (map (\<lambda>j. [Decompressed SC_X (int j) (8 * int csize), Appended SC_Y]) [0..<n])\<rparr>)"
    by (intro transform_loop_plain) (simp_all add: g length_fill_buffer)
  then show ?thesis
    unfolding transform_phase_def g_def[symmetric] by (simp add: g cong: map_cong)
qed


text \<open>
  So, on the plain store, every sample of every \<open>y\<close> chunk is the polynomial of the sample
  of the \<open>x\<close> chunk at the same place.
\<close>

lemma transform_phase_plain_samples:
  assumes "transform_phase plain_store n csize empty_store = (r, s)" and "j < n" and "i < csize"
  shows "chunks_y (lib s) ! j ! i =
           dmul (dmul (dsub (chunks_x (lib s) ! j ! i) (literal (135 / 100)))
                      (dsub (chunks_x (lib s) ! j ! i) (literal (445 / 100))))
                (dsub (chunks_x (lib s) ! j ! i) (literal (85 / 10)))"
proof -
  let ?F = "\<lambda>j. fill_buffer n csize (replicate csize (Finite 0)) (int j)"
  have x: "chunks_x (lib s) ! j = ?F j"
    and y: "chunks_y (lib s) ! j = process_data csize (?F j) (replicate csize (Finite 0))"
    using assms(1,2) unfolding transform_phase_plain by auto
  show ?thesis unfolding x y using assms(3) by (intro process_data_nth) simp_all
qed

text \<open>
  And whenever there is a chunk at all, \<open>buffer_y\<close> ends as the last \<open>y\<close> chunk: the value
  \<open>buffer_y[0]\<close> that seeds the third loop is the first sample of the last chunk.
\<close>

lemma seed_is_last_chunk:
  assumes "transform_phase plain_store n csize empty_store = (r, s)" and "0 < n"
  shows "r = None" and "buffer_y s = chunks_y (lib s) ! (n - 1)"
  using assms unfolding transform_phase_plain by auto

text \<open>
  The third loop on a plain store that already holds \<open>n\<close> chunks of \<open>x\<close> and of \<open>y\<close>:
  every chunk is scanned as if the scan were seeded with the chunk's own first sample.
\<close>

lemma roots_of_append: "roots_of (a @ b) = roots_of a @ roots_of b"
  by (induction a rule: roots_of.induct) simp_all

lemma roots_of_Root: "roots_of (map (\<lambda>r. Root (snd r)) ps) = map snd ps"
  by (induction ps) simp_all

lemma scan_loop_plain:
  assumes "length (buffer_x s) = csize" and "length (buffer_y s) = csize"
    and "n \<le> length (chunks_x (lib s))" and "n \<le> length (chunks_y (lib s))"
    and "\<forall>j<n. length (chunks_x (lib s) ! j) = csize \<and> length (chunks_y (lib s) ! j) = csize"
    and "k \<le> n"
  shows "scan_loop plain_store n csize k prev_value s =
     (None,
      s\<lparr>buffer_x := (if k < n then chunks_x (lib s) ! (n - 1) else buffer_x s),
        buffer_y := (if k < n then chunks_y (lib s) ! (n - 1) else buffer_y s),
        trace := trace s @
          concat (map (\<lambda>j. [Decompressed SC_Y (int j) (8 * int csize),
                             Decompressed SC_X (int j) (8 * int csize)] @
                            map (\<lambda>r. Root (snd r))
                              (find_root csize (chunks_x (lib s) ! j) (chunks_y (lib s) ! j)
                                 (chunks_y (lib s) ! j ! 0))) [k..<n])\<rparr>)"
  using assms
proof (induction plain_store n csize k prev_value s rule: scan_loop.induct)
  case (1 n csize k prev_value s)
  show ?case
  proof (cases "k < n")
    case False
    then have "k = n" using "1.prems" by simp
    then show ?thesis by (subst scan_loop.simps) simp
  next
    case True
    let ?xs = "chunks_x (lib s)" and ?ys = "chunks_y (lib s)"
    let ?E = "\<lambda>j. [Decompressed SC_Y (int j) (8 * int csize),
                     Decompressed SC_X (int j) (8 * int csize)] @
                    map (\<lambda>r. Root (snd r)) (find_root csize (?xs ! j) (?ys ! j) (?ys ! j ! 0))"
    have ky: "k < length (chunks_of SC_Y (lib s))" "length (?ys ! k) = csize"
      using True "1.prems"(4,5) by (simp_all add: chunks_of_def)
    define s1 where "s1 = s\<lparr>buffer_y := ?ys ! k,
       trace := trace s @ [Decompressed SC_Y (int k) (8 * int csize)]\<rparr>"
    have dec: "decompress_into plain_store SC_Y k s = (8 * int csize, s1)"
      using decompress_into_plain[OF ky(1)] ky(2) "1.prems"(2)
      by (simp add: chunks_of_def store_into_whole s1_def)
    have kx: "k < length (chunks_of SC_X (lib s1))" "length (?xs ! k) = csize"
      using True "1.prems"(3,5) by (simp_all add: chunks_of_def s1_def)
    define s2 where "s2 = s\<lparr>buffer_x := ?xs ! k, buffer_y := ?ys ! k,
       trace := trace s @ [Decompressed SC_Y (int k) (8 * int csize),
                           Decompressed SC_X (int k) (8 * int csize)]\<rparr>"
    have dec': "decompress_into plain_store SC_X k s1 = (8 * int csize, s2)"
      using decompress_into_plain[OF kx(1)] kx(2) "1.prems"(1)
      by (simp add: chunks_of_def store_into_whole s1_def s2_def)
    define s3 where "s3 = s2\<lparr>trace := trace s2 @
       map (\<lambda>r. Root (snd r)) (find_root csize (buffer_x s2) (buffer_y s2) prev_value)\<rparr>"
    have "find_root csize (?xs ! k) (?ys ! k) prev_value =
          find_root csize (?xs ! k) (?ys ! k) (?ys ! k ! 0)"
      by (rule find_root_prev_value_unused)
    then have s3: "s3 = s\<lparr>buffer_x := ?xs ! k, buffer_y := ?ys ! k, trace := trace s @ ?E k\<rparr>"
      by (simp add: s3_def s2_def)
    have upt: "[k..<n] = k # [Suc k..<n]" using True by (simp add: upt_conv_Cons)
    have "k = n - 1" if "\<not> Suc k < n" using that True by simp
    then have last: "(if Suc k < n then ?xs ! (n - 1) else ?xs ! k) = ?xs ! (n - 1)"
      "(if Suc k < n then ?ys ! (n - 1) else ?ys ! k) = ?ys ! (n - 1)"
      by (cases "Suc k < n"; simp)+
    have "scan_loop plain_store n csize k prev_value s =
          scan_loop plain_store n csize (Suc k) (buffer_y s2 ! (csize - 1)) s3"
      using True dec dec' by (subst scan_loop.simps) (simp add: s3_def)
    also have "\<dots> = (None,
      s3\<lparr>buffer_x := (if Suc k < n then chunks_x (lib s3) ! (n - 1) else buffer_x s3),
        buffer_y := (if Suc k < n then chunks_y (lib s3) ! (n - 1) else buffer_y s3),
        trace := trace s3 @
          concat (map (\<lambda>j. [Decompressed SC_Y (int j) (8 * int csize),
                             Decompressed SC_X (int j) (8 * int csize)] @
                            map (\<lambda>r. Root (snd r))
                              (find_root csize (chunks_x (lib s3) ! j) (chunks_y (lib s3) ! j)
                                 (chunks_y (lib s3) ! j ! 0))) [Suc k..<n])\<rparr>)"
      unfolding s3_def
    proof (intro "1.hyps"[OF True dec[symmetric] _ dec'[symmetric]])
      show "\<not> 8 * int csize < 0" "\<not> 8 * int csize < 0" by simp_all
    qed (use True "1.prems" kx ky in \<open>simp_all add: s2_def\<close>)
    also have "\<dots> = (None,
      s\<lparr>buffer_x := (if Suc k < n then ?xs ! (n - 1) else ?xs ! k),
        buffer_y := (if Suc k < n then ?ys ! (n - 1) else ?ys ! k),
        trace := trace s @ ?E k @ concat (map ?E [Suc k..<n])\<rparr>)"
      by (simp add: s3)
    also have "\<dots> = (None,
      s\<lparr>buffer_x := ?xs ! (n - 1), buffer_y := ?ys ! (n - 1),
        trace := trace s @ concat (map ?E [k..<n])\<rparr>)"
      unfolding last upt by simp
    finally show ?thesis using True by simp
  qed
qed


text \<open>
  A whole run on the plain store returns 0, and what it prints is what \<open>find_root\<close> prints
  for each chunk on its own, seeded with the chunk's own first sample: nothing is
  carried from one chunk to the next.
\<close>

lemma roots_of_scan:
  "roots_of (concat (map (\<lambda>j. [Decompressed SC_Y (int j) d, Decompressed SC_X (int j) d] @
                               map (\<lambda>r. Root (snd r)) (f j)) js)) =
   concat (map (\<lambda>j. map snd (f j)) js)"
  by (induction js) (simp_all add: roots_of_append roots_of_Root)

lemma roots_of_no_Root: "\<forall>e \<in> set t. \<forall>v. e \<noteq> Root v \<Longrightarrow> roots_of t = []"
  by (induction t rule: roots_of.induct) auto

lemma compute_vectors_plain:
  assumes "compute_vectors plain_store n csize empty_store = (ret, s)"
  shows "ret = 0"
    and "roots_of (trace s) =
           concat (map (\<lambda>j. map snd (find_root csize (chunks_x (lib s) ! j) (chunks_y (lib s) ! j)
                                         (chunks_y (lib s) ! j ! 0))) [0..<n])"
proof -
  let ?b0 = "replicate csize (Finite 0)"
  let ?F = "\<lambda>j. fill_buffer n csize ?b0 (int j)"
  let ?P = "\<lambda>j. process_data csize (?F j) ?b0"
  obtain s1 where t: "transform_phase plain_store n csize empty_store = (None, s1)"
    and lib1: "lib s1 = \<lparr>chunks_x = map ?F [0..<n], chunks_y = map ?P [0..<n]\<rparr>"
    and len1: "length (buffer_x s1) = csize" "length (buffer_y s1) = csize"
    and tr1: "trace s1 = replicate n (Appended SC_X) @
               concat (map (\<lambda>j. [Decompressed SC_X (int j) (8 * int csize), Appended SC_Y]) [0..<n])"
    unfolding transform_phase_plain by (simp add: length_fill_buffer length_process_data)
  have no_root: "roots_of (trace s1) = []"
    unfolding tr1 by (rule roots_of_no_Root) auto
  let ?E = "\<lambda>j. [Decompressed SC_Y (int j) (8 * int csize), Decompressed SC_X (int j) (8 * int csize)] @
                 map (\<lambda>r. Root (snd r))
                   (find_root csize (chunks_x (lib s1) ! j) (chunks_y (lib s1) ! j)
                      (chunks_y (lib s1) ! j ! 0))"
  have scan: "scan_loop plain_store n csize 0 (buffer_y s1 ! 0) s1 =
     (None,
      s1\<lparr>buffer_x := (if 0 < n then chunks_x (lib s1) ! (n - 1) else buffer_x s1),
         buffer_y := (if 0 < n then chunks_y (lib s1) ! (n - 1) else buffer_y s1),
         trace := trace s1 @ concat (map ?E [0..<n])\<rparr>)"
    using len1 by (intro scan_loop_plain) (simp_all add: lib1 length_fill_buffer length_process_data)
  have res: "ret = 0" "lib s = lib s1" "trace s = trace s1 @ concat (map ?E [0..<n])"
    using assms by (auto simp add: compute_vectors_def t scan)
  show "ret = 0" by (rule res)
  show "roots_of (trace s) =
           concat (map (\<lambda>j. map snd (find_root csize (chunks_x (lib s) ! j) (chunks_y (lib s) ! j)
                                         (chunks_y (lib s) ! j ! 0))) [0..<n])"
    unfolding res by (simp only: roots_of_append no_root roots_of_scan append_Nil)
qed

text \<open>
  Claim C1.  Let the store hold \<open>n\<close> chunks of \<open>csize\<close> samples in which no sign change
  lies inside a chunk: every sample has the sign class of the first sample of its
  chunk.  This is the case when the only sign change of the \<open>y\<close> sequence falls between
  the last sample of one chunk and the first sample of the next.  Then the third loop
  runs through all chunks and reports no root, whatever the carried value is; the
  claim expects one report.
\<close>

theorem scan_misses_every_boundary_crossing:
  assumes "length xs = n" and "length ys = n"
    and "\<forall>j<n. length (xs ! j) = csize \<and> length (ys ! j) = csize"
    and "\<forall>j<n. \<forall>i<csize. sign3 (ys ! j ! i) = sign3 (ys ! j ! 0)"
    and "scan_loop plain_store n csize 0 prev_value
           (initial csize \<lparr>chunks_x = xs, chunks_y = ys\<rparr>) = (r, s)"
  shows "r = None \<and> roots_of (trace s) = []"
proof -
  let ?s0 = "initial csize \<lparr>chunks_x = xs, chunks_y = ys\<rparr>"
  have none: "find_root csize (xs ! j) (ys ! j) (ys ! j ! 0) = []" if "j < n" for j
  proof (rule find_root_constant_sign, intro allI impI)
    fix i assume "i < csize"
    then show "sign3 (ys ! j ! i) = sign3 (ys ! j ! 0)"
      using assms(4)[rule_format, of j i] that by (simp only:)
  qed
  have "scan_loop plain_store n csize 0 prev_value ?s0 =
     (None,
      ?s0\<lparr>buffer_x := (if 0 < n then chunks_x (lib ?s0) ! (n - 1) else buffer_x ?s0),
        buffer_y := (if 0 < n then chunks_y (lib ?s0) ! (n - 1) else buffer_y ?s0),
        trace := trace ?s0 @
          concat (map (\<lambda>j. [Decompressed SC_Y (int j) (8 * int csize),
                             Decompressed SC_X (int j) (8 * int csize)] @
                            map (\<lambda>r. Root (snd r))
                              (find_root csize (chunks_x (lib ?s0) ! j) (chunks_y (lib ?s0) ! j)
                                 (chunks_y (lib ?s0) ! j ! 0))) [0..<n])\<rparr>)"
    using assms(1,2,3) by (intro scan_loop_plain) (simp_all add: initial_def)
  then have r: "r = None" and s: "trace s =
      concat (map (\<lambda>j. [Decompressed SC_Y (int j) (8 * int csize),
                         Decompressed SC_X (int j) (8 * int csize)] @
                        map (\<lambda>r. Root (snd r)) (find_root csize (xs ! j) (ys ! j) (ys ! j ! 0))) [0..<n])"
    using assms(5) by (auto simp: initial_def)
  have "roots_of (concat (map (\<lambda>j. [Decompressed SC_Y (int j) (8 * int csize),
                         Decompressed SC_X (int j) (8 * int csize)] @
                        map (\<lambda>r. Root (snd r)) (find_root csize (xs ! j) (ys ! j) (ys ! j ! 0))) js)) = []"
    if "\<forall>j \<in> set js. j < n" for js
    using that by (induction js) (simp_all add: roots_of_append none)
  then show ?thesis using r s by simp
qed


theorem scan_misses_every_boundary_crossing_witness:
  "length (chunks_x boundary_store) = 2 \<and> length (chunks_y boundary_store) = 2 \<and>
   sign3 (chunks_y boundary_store ! 0 ! 1) \<noteq> sign3 (chunks_y boundary_store ! 1 ! 0) \<and>
   fst (scan_loop plain_store 2 2 0 (Finite (- 1)) (initial 2 boundary_store)) = None \<and>
   roots_of (trace (snd (scan_loop plain_store 2 2 0 (Finite (- 1)) (initial 2 boundary_store)))) = []"
proof -
  let ?xs = "[[Finite 0, Finite 1], [Finite 2, Finite 3]]"
  let ?ys = "[[Finite (- 1), Finite (- 1)], [Finite 1, Finite 1]]"
  let ?run = "scan_loop plain_store 2 2 0 (Finite (- 1)) (initial 2 \<lparr>chunks_x = ?xs, chunks_y = ?ys\<rparr>)"
  have len: "length ?xs = 2" "length ?ys = 2" by simp_all
  have chunks: "\<forall>j<2. length (?xs ! j) = 2 \<and> length (?ys ! j) = 2"
    by (simp add: less_Suc_eq_0_disj numeral_2_eq_2)
  have signs: "\<forall>j<2. \<forall>i<2. sign3 (?ys ! j ! i) = sign3 (?ys ! j ! 0)"
    by (simp add: less_Suc_eq_0_disj numeral_2_eq_2)
  have run: "?run = (fst ?run, snd ?run)" by simp
  have differ: "sign3 (?ys ! 0 ! 1) \<noteq> sign3 (?ys ! 1 ! 0)"
    by (simp add: sign3_def c_bool_def)
  from scan_misses_every_boundary_crossing[OF len chunks signs run] differ
  show ?thesis by (simp add: boundary_store_def)
qed

text \<open>
  The program's own constants.  The first sample of the last \<open>x\<close> chunk, global index
  \<open>499 * 200000\<close>, is the double nearest to \<open>9.98\<close>; the polynomial there is about
  \<open>70.63\<close>, and at the first sample of the first chunk, \<open>x = 0\<close>, it is about \<open>-51.06\<close>.
\<close>

lemma program_sizes: "0 < NCHUNKS" "0 < CHUNKSIZE" "NCHUNKS - 1 < NCHUNKS"
  by (simp_all add: NCHUNKS_def CHUNKSIZE_def)

lemma program_last_chunk_first_sample:
  "fill_buffer NCHUNKS CHUNKSIZE (replicate CHUNKSIZE (Finite 0)) (int (NCHUNKS - 1)) ! 0 =
     Finite (2809120267572347 / 281474976710656)"
proof -
  have "fill_buffer NCHUNKS CHUNKSIZE (replicate CHUNKSIZE (Finite 0)) (int (NCHUNKS - 1)) ! 0 =
      dmul (incx NCHUNKS CHUNKSIZE) (Finite (of_int (int ((NCHUNKS - 1) * CHUNKSIZE + 0))))"
    by (intro fill_buffer_sample program_sizes) simp
  also have "\<dots> = Finite (2809120267572347 / 281474976710656)"
    by (simp add: incx_program) (simp add: NCHUNKS_def CHUNKSIZE_def dround_eval)
  finally show ?thesis .
qed

lemma program_first_chunk_first_sample:
  "fill_buffer NCHUNKS CHUNKSIZE (replicate CHUNKSIZE (Finite 0)) (int 0) ! 0 = Finite 0"
proof -
  have "fill_buffer NCHUNKS CHUNKSIZE (replicate CHUNKSIZE (Finite 0)) (int 0) ! 0 =
      dmul (incx NCHUNKS CHUNKSIZE) (Finite (of_int (int (0 * CHUNKSIZE + 0))))"
    by (intro fill_buffer_sample program_sizes) simp
  also have "\<dots> = Finite 0"
    by (simp add: incx_program) (simp add: dround_eval)
  finally show ?thesis .
qed

lemma cubic_at_998:
  "dmul (dmul (dsub (Finite (2809120267572347 / 281474976710656)) (literal (135 / 100)))
              (dsub (Finite (2809120267572347 / 281474976710656)) (literal (445 / 100))))
        (dsub (Finite (2809120267572347 / 281474976710656)) (literal (85 / 10))) =
   Finite (2485120473592711 / 35184372088832)"
  by (simp add: literal_def dround_eval)

lemma cubic_at_0:
  "dmul (dmul (dsub (Finite 0) (literal (135 / 100))) (dsub (Finite 0) (literal (445 / 100))))
        (dsub (Finite 0) (literal (85 / 10))) =
   Finite (- (1796645980251095 / 35184372088832))"
  by (simp add: literal_def dround_eval)

text \<open>
  Claim C2.  On the plain store, with \<open>NCHUNKS = 500\<close> and \<open>CHUNKSIZE = 200000\<close>, the second
  loop ends without error and leaves in \<open>buffer_y[0]\<close>, the value taken as \<open>prev_value\<close>
  before the third loop, the first sample of the last \<open>y\<close> chunk (about \<open>70.63\<close>).  The
  first sample of the first \<open>y\<close> chunk is another value (about \<open>-51.06\<close>), of the opposite
  sign.
\<close>

theorem program_prev_value:
  "fst (transform_phase plain_store NCHUNKS CHUNKSIZE empty_store) = None \<and>
   buffer_y (snd (transform_phase plain_store NCHUNKS CHUNKSIZE empty_store)) ! 0 =
     Finite (2485120473592711 / 35184372088832) \<and>
   chunks_y (lib (snd (transform_phase plain_store NCHUNKS CHUNKSIZE empty_store))) ! 0 ! 0 =
     Finite (- (1796645980251095 / 35184372088832)) \<and>
   chunks_y (lib (snd (transform_phase plain_store NCHUNKS CHUNKSIZE empty_store))) ! (NCHUNKS - 1) ! 0 =
     Finite (2485120473592711 / 35184372088832)"
proof -
  let ?b0 = "replicate CHUNKSIZE (Finite 0)"
  let ?F = "\<lambda>j. fill_buffer NCHUNKS CHUNKSIZE ?b0 (int j)"
  let ?P = "\<lambda>j. process_data CHUNKSIZE (?F j) ?b0"
  have "?P (NCHUNKS - 1) ! 0 =
      dmul (dmul (dsub (?F (NCHUNKS - 1) ! 0) (literal (135 / 100)))
                 (dsub (?F (NCHUNKS - 1) ! 0) (literal (445 / 100))))
           (dsub (?F (NCHUNKS - 1) ! 0) (literal (85 / 10)))"
    by (rule process_data_nth) (simp_all add: program_sizes)
  then have last: "?P (NCHUNKS - 1) ! 0 = Finite (2485120473592711 / 35184372088832)"
    unfolding program_last_chunk_first_sample cubic_at_998 .
  have "?P 0 ! 0 =
      dmul (dmul (dsub (?F 0 ! 0) (literal (135 / 100))) (dsub (?F 0 ! 0) (literal (445 / 100))))
           (dsub (?F 0 ! 0) (literal (85 / 10)))"
    by (rule process_data_nth) (simp_all add: program_sizes)
  then have first: "?P 0 ! 0 = Finite (- (1796645980251095 / 35184372088832))"
    unfolding program_first_chunk_first_sample cubic_at_0 .
  have nth: "map ?P [0..<NCHUNKS] ! 0 = ?P 0" "map ?P [0..<NCHUNKS] ! (NCHUNKS - 1) = ?P (NCHUNKS - 1)"
    using program_sizes by (simp_all only: nth_map length_upt nth_upt minus_nat.diff_0 add_0)
  show ?thesis
    unfolding transform_phase_plain
    by (simp only: fst_conv snd_conv machine.simps store.simps program_sizes if_True nth last first)
qed


text \<open>
  The third root of the polynomial in the program's own run.  Global index \<open>85000000\<close> is
  the first sample of chunk 425; there \<open>x\<close> is exactly \<open>8.5\<close> and the polynomial exactly \<open>0\<close>.
  The last sample of chunk 424 is negative, the second sample of chunk 425 positive.
\<close>

lemma program_x_sample:
  assumes "transform_phase plain_store NCHUNKS CHUNKSIZE empty_store = (r, s)"
    and "j < NCHUNKS" and "i < CHUNKSIZE"
  shows "chunks_x (lib s) ! j ! i =
           dmul (incx NCHUNKS CHUNKSIZE) (Finite (of_int (int (j * CHUNKSIZE + i))))"
proof -
  have "chunks_x (lib s) ! j = fill_buffer NCHUNKS CHUNKSIZE (replicate CHUNKSIZE (Finite 0)) (int j)"
    using assms(1,2) unfolding transform_phase_plain by auto
  then show ?thesis using assms(2,3) by (simp add: fill_buffer_sample)
qed

lemma sample_84999999:
  "dmul (incx NCHUNKS CHUNKSIZE) (Finite (of_int (int (424 * CHUNKSIZE + (CHUNKSIZE - 1))))) =
     Finite (1196268636946539 / 140737488355328)"
  unfolding incx_program by (simp add: CHUNKSIZE_def dround_eval)

lemma sample_85000000:
  "dmul (incx NCHUNKS CHUNKSIZE) (Finite (of_int (int (425 * CHUNKSIZE + 0)))) = Finite (17 / 2)"
  unfolding incx_program by (simp add: CHUNKSIZE_def dround_eval)

lemma sample_85000001:
  "dmul (incx NCHUNKS CHUNKSIZE) (Finite (of_int (int (425 * CHUNKSIZE + 1)))) =
     Finite (4785074660376147 / 562949953421312)"
  unfolding incx_program by (simp add: CHUNKSIZE_def dround_eval)

lemma cubic_at_84999999:
  "dmul (dmul (dsub (Finite (1196268636946539 / 140737488355328)) (literal (135 / 100)))
              (dsub (Finite (1196268636946539 / 140737488355328)) (literal (445 / 100))))
        (dsub (Finite (1196268636946539 / 140737488355328)) (literal (85 / 10))) =
   Finite (- (6837396186834841 / 2361183241434822606848))"
  by (simp add: literal_def dround_eval)

lemma cubic_at_85000000:
  "dmul (dmul (dsub (Finite (17 / 2)) (literal (135 / 100)))
              (dsub (Finite (17 / 2)) (literal (445 / 100))))
        (dsub (Finite (17 / 2)) (literal (85 / 10))) =
   Finite 0"
  by (simp add: literal_def dround_eval)

lemma cubic_at_85000001:
  "dmul (dmul (dsub (Finite (4785074660376147 / 562949953421312)) (literal (135 / 100)))
              (dsub (Finite (4785074660376147 / 562949953421312)) (literal (445 / 100))))
        (dsub (Finite (4785074660376147 / 562949953421312)) (literal (85 / 10))) =
   Finite (1709349148570833 / 590295810358705651712)"
  by (simp add: literal_def dround_eval)

lemma program_chunk_425:
  assumes run: "transform_phase plain_store NCHUNKS CHUNKSIZE empty_store = (r, s)"
  shows "chunks_y (lib s) ! 424 ! (CHUNKSIZE - 1) = Finite (- (6837396186834841 / 2361183241434822606848))"
    and "chunks_x (lib s) ! 425 ! 0 = Finite (17 / 2)"
    and "chunks_y (lib s) ! 425 ! 0 = Finite 0"
    and "chunks_x (lib s) ! 425 ! 1 = Finite (4785074660376147 / 562949953421312)"
    and "chunks_y (lib s) ! 425 ! 1 = Finite (1709349148570833 / 590295810358705651712)"
proof -
  have sizes: "424 < NCHUNKS" "425 < NCHUNKS" "CHUNKSIZE - 1 < CHUNKSIZE" "0 < CHUNKSIZE" "1 < CHUNKSIZE"
    by (simp_all add: NCHUNKS_def CHUNKSIZE_def)
  show "chunks_x (lib s) ! 425 ! 0 = Finite (17 / 2)"
    unfolding program_x_sample[OF run sizes(2,4)] by (rule sample_85000000)
  show "chunks_x (lib s) ! 425 ! 1 = Finite (4785074660376147 / 562949953421312)"
    unfolding program_x_sample[OF run sizes(2,5)] by (rule sample_85000001)
  show "chunks_y (lib s) ! 424 ! (CHUNKSIZE - 1) =
      Finite (- (6837396186834841 / 2361183241434822606848))"
    unfolding transform_phase_plain_samples[OF run sizes(1,3)] program_x_sample[OF run sizes(1,3)]
      sample_84999999 by (rule cubic_at_84999999)
  show "chunks_y (lib s) ! 425 ! 0 = Finite 0"
    unfolding transform_phase_plain_samples[OF run sizes(2,4)] program_x_sample[OF run sizes(2,4)]
      sample_85000000 by (rule cubic_at_85000000)
  show "chunks_y (lib s) ! 425 ! 1 = Finite (1709349148570833 / 590295810358705651712)"
    unfolding transform_phase_plain_samples[OF run sizes(2,5)] program_x_sample[OF run sizes(2,5)]
      sample_85000001 by (rule cubic_at_85000001)
qed

text \<open>
  So the call of \<open>find_root\<close> for chunk 425 gets a carried value whose sign differs from
  that of the chunk's first sample, where the polynomial vanishes.  It does not report
  this sample; it reports the next one, \<open>x[1]\<close>, about \<open>8.5000001\<close>.
\<close>

lemma program_third_root:
  assumes run: "transform_phase plain_store NCHUNKS CHUNKSIZE empty_store = (r, s)"
  shows "sign3 (chunks_y (lib s) ! 425 ! 0) \<noteq> sign3 (chunks_y (lib s) ! 424 ! (CHUNKSIZE - 1))"
    and "0 \<notin> indices (find_root CHUNKSIZE (chunks_x (lib s) ! 425) (chunks_y (lib s) ! 425)
                          (chunks_y (lib s) ! 424 ! (CHUNKSIZE - 1)))"
    and "1 \<in> indices (find_root CHUNKSIZE (chunks_x (lib s) ! 425) (chunks_y (lib s) ! 425)
                          (chunks_y (lib s) ! 424 ! (CHUNKSIZE - 1)))"
proof -
  let ?fr = "find_root CHUNKSIZE (chunks_x (lib s) ! 425) (chunks_y (lib s) ! 425)
               (chunks_y (lib s) ! 424 ! (CHUNKSIZE - 1))"
  note v = program_chunk_425[OF run]
  show "sign3 (chunks_y (lib s) ! 425 ! 0) \<noteq> sign3 (chunks_y (lib s) ! 424 ! (CHUNKSIZE - 1))"
    unfolding v by (simp add: sign3_def c_bool_def)
  show zero: "0 \<notin> indices ?fr"
    using find_root_reports_iff[of 0 CHUNKSIZE] by simp
  have "sign3 (chunks_y (lib s) ! 425 ! 1) \<noteq> sign3 (chunks_y (lib s) ! 425 ! (1 - 1))"
    unfolding diff_self_eq_0 v by (simp add: sign3_def c_bool_def)
  moreover have "(1::nat) < CHUNKSIZE" by (simp add: CHUNKSIZE_def)
  ultimately show "1 \<in> indices ?fr"
    using zero find_root_reports_iff[of 1 CHUNKSIZE "chunks_x (lib s) ! 425" "chunks_y (lib s) ! 425"
        "chunks_y (lib s) ! 424 ! (CHUNKSIZE - 1)"]
    by simp
qed

section \<open>Runs on concrete stores\<close>

lemma replicate_numeral_unfold: "replicate (numeral k) x = x # replicate (pred_numeral k) x"
  by (simp add: numeral_eq_Suc)

lemma literal_135: "literal (27 / 20) = Finite (3039929748475085 / 2251799813685248)"
  by (simp add: literal_def dround_eval)

lemma literal_445: "literal (89 / 20) = Finite (5010254585449677 / 1125899906842624)"
  by (simp add: literal_def dround_eval)

lemma literal_85: "literal (17 / 2) = Finite (17 / 2)"
  by (simp add: literal_def dround_eval)

lemmas arith_eval = dround_eval literal_10 literal_135 literal_445 literal_85
  incx_def int32_def int_to_double_def sign3_def c_bool_def inf_of_sign_def

lemmas run_eval = initial_def
  generate_loop.simps transform_loop.simps scan_loop.simps decompress_into_def append_from_def
  store_into_def fill_buffer_def fill_buffer_loop.simps process_data_def process_data_loop.simps
  find_root_def find_root_loop.simps find_root_iter_def Let_def
  plain_store_def faulty_store_def empty_store_def chunks_of_def replicate_numeral_unfold

text \<open>
  Two chunks of one sample, on a store whose second \<open>y\<close> chunk cannot be decompressed:
  the third loop scans chunk 0 and returns at chunk 1.
\<close>

lemma faulty_run:
  "compute_vectors (faulty_store SC_Y 1 (- 7)) 2 1 empty_store =
     (- 7,
      \<lparr>buffer_x = [Finite 0],
       buffer_y = [Finite (- (1796645980251095 / 35184372088832))],
       lib =
         \<lparr>chunks_x = [[Finite 0], [Finite 5]],
          chunks_y =
            [[Finite (- (1796645980251095 / 35184372088832))],
             [Finite (- (988856777556623 / 140737488355328))]]\<rparr>,
       trace =
         [Appended SC_X, Appended SC_X, Decompressed SC_X 0 8, Appended SC_Y,
          Decompressed SC_X 1 8, Appended SC_Y, Decompressed SC_Y 0 8,
          Decompressed SC_X 0 8, Decompressed SC_Y 1 (- 7)]\<rparr>)"
  by (simp add: compute_vectors_def transform_phase_def generate_phase_def run_eval arith_eval)

theorem compute_vectors_aborts_on_failure_witness:
  "trace (snd (compute_vectors (faulty_store SC_Y 1 (- 7)) 2 1 empty_store)) =
     [Appended SC_X, Appended SC_X, Decompressed SC_X 0 8, Appended SC_Y,
      Decompressed SC_X 1 8, Appended SC_Y, Decompressed SC_Y 0 8,
      Decompressed SC_X 0 8] @ Decompressed SC_Y 1 (- 7) # [] \<and>
   (- 7 :: int) < 0 \<and>
   fst (compute_vectors (faulty_store SC_Y 1 (- 7)) 2 1 empty_store) = - 7"
proof -
  let ?run = "compute_vectors (faulty_store SC_Y 1 (- 7)) 2 1 empty_store"
  have tr: "trace (snd ?run) =
     [Appended SC_X, Appended SC_X, Decompressed SC_X 0 8, Appended SC_Y,
      Decompressed SC_X 1 8, Appended SC_Y, Decompressed SC_Y 0 8,
      Decompressed SC_X 0 8] @ Decompressed SC_Y 1 (- 7) # []"
    unfolding faulty_run by simp
  have neg: "(- 7 :: int) < 0" by simp
  have "?run = (fst ?run, snd ?run)" by simp
  from compute_vectors_aborts_on_failure[OF this tr neg] tr neg show ?thesis by simp
qed

text \<open>
  A whole run on the plain store with two chunks of five samples, \<open>x = 0, 1, ..., 9\<close>.
\<close>

lemma generate_2x5:
  "generate_phase plain_store 2 5 empty_store =
     \<lparr>buffer_x = [Finite 5, Finite 6, Finite 7, Finite 8, Finite 9],
      buffer_y = [Finite 0, Finite 0, Finite 0, Finite 0, Finite 0],
      lib = \<lparr>chunks_x = [[Finite 0, Finite 1, Finite 2, Finite 3, Finite 4],
                        [Finite 5, Finite 6, Finite 7, Finite 8, Finite 9]],
             chunks_y = []\<rparr>,
      trace = [Appended SC_X, Appended SC_X]\<rparr>"
  by (simp add: generate_phase_def run_eval arith_eval)

lemma transform_2x5:
  "transform_phase plain_store 2 5 empty_store =
     (None,
      \<lparr>buffer_x = [Finite 5, Finite 6, Finite 7, Finite 8, Finite 9],
       buffer_y =
         [Finite (- (988856777556623 / 140737488355328)),
          Finite (- (1267956809151283 / 70368744177664)),
          Finite (- (6083026090438165 / 281474976710656)),
          Finite (- (1661230128174203 / 140737488355328)),
          Finite (4898720125928079 / 281474976710656)],
       lib =
         \<lparr>chunks_x =
            [[Finite 0, Finite 1, Finite 2, Finite 3, Finite 4],
             [Finite 5, Finite 6, Finite 7, Finite 8, Finite 9]],
          chunks_y =
            [[Finite (- (1796645980251095 / 35184372088832)),
              Finite (- (5098215515671759 / 562949953421312)),
              Finite (5827235705352355 / 562949953421312),
              Finite (3703858849791345 / 281474976710656),
              Finite (6041860375094233 / 1125899906842624)],
             [Finite (- (988856777556623 / 140737488355328)),
              Finite (- (1267956809151283 / 70368744177664)),
              Finite (- (6083026090438165 / 281474976710656)),
              Finite (- (1661230128174203 / 140737488355328)),
              Finite (4898720125928079 / 281474976710656)]]\<rparr>,
       trace =
         [Appended SC_X, Appended SC_X, Decompressed SC_X 0 40, Appended SC_Y,
          Decompressed SC_X 1 40, Appended SC_Y]\<rparr>)"
  by (simp add: transform_phase_def generate_2x5) (simp add: run_eval arith_eval)

text \<open>
  The polynomial is positive at \<open>x = 2, 3, 4\<close> and negative at \<open>x = 5\<close>, the first sample of
  the second chunk.  The run prints the roots at \<open>x = 2\<close> and \<open>x = 9\<close>; the crossing between
  \<open>x = 4\<close> and \<open>x = 5\<close> is lost.
\<close>

lemma run_2x5_roots:
  "compute_vectors plain_store 2 5 empty_store = (r, s) \<Longrightarrow>
   r = 0 \<and> roots_of (trace s) = [Finite 2, Finite 9]"
  by (simp add: compute_vectors_def transform_2x5) (auto simp: run_eval sign3_def c_bool_def)

text \<open>
  In this run, too, the value \<open>buffer_y[0]\<close> that seeds the third loop is the first sample
  of the last \<open>y\<close> chunk, the polynomial at \<open>x = 5\<close>, and not that of the first.
\<close>

lemma run_2x5_seed:
  "fst (transform_phase plain_store 2 5 empty_store) = None \<and>
   buffer_y (snd (transform_phase plain_store 2 5 empty_store)) ! 0 =
     chunks_y (lib (snd (transform_phase plain_store 2 5 empty_store))) ! 1 ! 0 \<and>
   buffer_y (snd (transform_phase plain_store 2 5 empty_store)) ! 0 \<noteq>
     chunks_y (lib (snd (transform_phase plain_store 2 5 empty_store))) ! 0 ! 0"
  unfolding transform_2x5 by simp

end
